theory Spec2Isabelle
  imports Complex_Main
begin

section \<open>JavaScript values used by the controllers\<close>

text \<open>
  Response bodies are JSON objects; a body is kept as the list of its keys and values in
  the order the controller writes them, so that two payloads can be compared literally.
\<close>

datatype json = JBool bool | JStr string | JInt int | JNull | JObj "(string \<times> json) list"

record response =
  status :: nat
  body :: "(string \<times> json) list"

text \<open>
  A field of \<open>req.body\<close> that the controllers read as a string: \<open>None\<close> is a field
  that is absent (\<open>undefined\<close>) or \<open>null\<close>. \<open>!x\<close> holds for an absent field
  and for the empty string.
\<close>

definition falsy :: "string option \<Rightarrow> bool" where
  "falsy x = (case x of None \<Rightarrow> True | Some s \<Rightarrow> s = [])"

text \<open>
  A number read out of a stored JSON document: the field may be missing
  (\<open>undefined\<close>), \<open>null\<close>, or a number.
\<close>

datatype 'a jsval = Undefined | Null | Num 'a

text \<open>Truthiness of such a value: only a non-zero number is truthy.\<close>

definition truthy :: "('a::zero) jsval \<Rightarrow> bool" where
  "truthy v = (case v of Num x \<Rightarrow> x \<noteq> 0 | _ \<Rightarrow> False)"

text \<open>\<open>a || b\<close> on two stored values, and \<open>a || d\<close> with a numeric literal \<open>d\<close>.\<close>

definition js_or :: "('a::zero) jsval \<Rightarrow> 'a jsval \<Rightarrow> 'a jsval" where
  "js_or a b = (if truthy a then a else b)"

definition js_or_num :: "('a::zero) jsval \<Rightarrow> 'a \<Rightarrow> 'a" where
  "js_or_num a d = (case a of Num x \<Rightarrow> (if x \<noteq> 0 then x else d) | _ \<Rightarrow> d)"

text \<open>
  \<open>ToNumber\<close>: \<open>undefined\<close> becomes NaN (here \<open>None\<close>), \<open>null\<close> becomes 0.
  \<open>a < b\<close> is false as soon as one side is NaN.
\<close>

definition toNumber :: "('a::zero) jsval \<Rightarrow> 'a option" where
  "toNumber v = (case v of Undefined \<Rightarrow> None | Null \<Rightarrow> Some 0 | Num x \<Rightarrow> Some x)"

definition js_lt :: "('a::{zero,linorder}) jsval \<Rightarrow> 'a jsval \<Rightarrow> bool" where
  "js_lt a b = (case (toNumber a, toNumber b) of (Some x, Some y) \<Rightarrow> x < y | _ \<Rightarrow> False)"

section \<open>Regular expressions and string functions\<close>

text \<open>
  A string is the list of its code units; the model covers the code units below 256.
  The regular expressions of the controllers are built from character classes,
  concatenation, alternation and repetition, and are matched by derivatives.
\<close>

datatype rx =
    Never
  | Eps
  | Class "char \<Rightarrow> bool"
  | Cat rx rx
  | Alt rx rx
  | Star rx

fun nullable :: "rx \<Rightarrow> bool" where
  "nullable Never = False"
| "nullable Eps = True"
| "nullable (Class P) = False"
| "nullable (Cat r s) = (nullable r \<and> nullable s)"
| "nullable (Alt r s) = (nullable r \<or> nullable s)"
| "nullable (Star r) = True"

fun deriv :: "char \<Rightarrow> rx \<Rightarrow> rx" where
  "deriv c Never = Never"
| "deriv c Eps = Never"
| "deriv c (Class P) = (if P c then Eps else Never)"
| "deriv c (Cat r s) =
     (if nullable r then Alt (Cat (deriv c r) s) (deriv c s) else Cat (deriv c r) s)"
| "deriv c (Alt r s) = Alt (deriv c r) (deriv c s)"
| "deriv c (Star r) = Cat (deriv c r) (Star r)"

text \<open>The whole string matches the expression (\<open>^...$\<close>).\<close>

fun matches :: "rx \<Rightarrow> string \<Rightarrow> bool" where
  "matches r [] = nullable r"
| "matches r (c # cs) = matches (deriv c r) cs"

definition rx_plus :: "rx \<Rightarrow> rx" where
  "rx_plus r = Cat r (Star r)"

definition rx_opt :: "rx \<Rightarrow> rx" where
  "rx_opt r = Alt Eps r"

text \<open>\<open>r{n}\<close> and \<open>r{0,n}\<close>; \<open>r{m,n}\<close> is \<open>r{m}\<close> followed by \<open>r{0,n-m}\<close>.\<close>

fun rx_times :: "nat \<Rightarrow> rx \<Rightarrow> rx" where
  "rx_times 0 r = Eps"
| "rx_times (Suc n) r = Cat r (rx_times n r)"

fun rx_upto :: "nat \<Rightarrow> rx \<Rightarrow> rx" where
  "rx_upto 0 r = Eps"
| "rx_upto (Suc n) r = Cat (rx_opt r) (rx_upto n r)"

definition rx_range :: "nat \<Rightarrow> nat \<Rightarrow> rx \<Rightarrow> rx" where
  "rx_range m n r = Cat (rx_times m r) (rx_upto (n - m) r)"

text \<open>An expression without anchors is searched for anywhere in the string.\<close>

definition rx_search :: "rx \<Rightarrow> string \<Rightarrow> bool" where
  "rx_search r s = matches (Cat (Star (Class (\<lambda>c. True))) (Cat r (Star (Class (\<lambda>c. True))))) s"

text \<open>
  The classes \<open>\s\<close> (tab, line feed, vertical tab, form feed, carriage return, space,
  no-break space) and \<open>\d\<close>.
\<close>

definition is_space :: "char \<Rightarrow> bool" where
  "is_space c = (of_char c \<in> {9, 10, 11, 12, 13, 32, 160 :: nat})"

definition is_digit :: "char \<Rightarrow> bool" where
  "is_digit c = (48 \<le> (of_char c :: nat) \<and> (of_char c :: nat) \<le> 57)"

text \<open>
  \<open>String.prototype.toLowerCase\<close> on the code units below 256: the capitals are
  A to Z (65 to 90) and the Latin-1 capitals U+00C0 to U+00DE without the multiplication
  sign U+00D7 (192 to 222 without 215); the lower-case letter is 32 above the capital,
  which is the bit of weight 32 set. Every other code unit below 256 is left as it is.
\<close>

definition lower_char :: "char \<Rightarrow> char" where
  "lower_char c =
     (if (65 \<le> (of_char c :: nat) \<and> (of_char c :: nat) \<le> 90)
         \<or> (192 \<le> (of_char c :: nat) \<and> (of_char c :: nat) \<le> 222 \<and> (of_char c :: nat) \<noteq> 215)
      then (case c of Char b0 b1 b2 b3 b4 b5 b6 b7 \<Rightarrow> Char b0 b1 b2 b3 b4 True b6 b7)
      else c)"

definition toLowerCase :: "string \<Rightarrow> string" where
  "toLowerCase s = map lower_char s"

section \<open>Accounts and one-time codes (mobileAuthController.js)\<close>

text \<open>
  Timestamps are milliseconds since the epoch. The controller stores \<open>expiresAt\<close> and
  \<open>createdAt\<close> as the ISO string of a date and reads it back with \<open>new Date\<close>, which
  gives the same millisecond back; the model keeps the millisecond.
\<close>

record otp_entry =
  otp :: string
  expiresAt :: int
  createdAt :: int

record fcm_token =
  token :: string
  device :: string
  lastUsed :: int

text \<open>
  A row of \<open>prisma.user\<close> or \<open>prisma.admin\<close>, with the fields the controller reads.
  \<open>emailOTPs\<close> and \<open>fcmTokens\<close> are JSON columns: \<open>None\<close> is a stored value that is
  not an array.
\<close>

record account =
  acc_id :: string
  email :: string
  password :: "string option"
  name :: string
  phoneNumber :: "string option"
  isVerified :: bool
  isActive :: bool
  provider :: "string option"
  emailOTPs :: "otp_entry list option"
  fcmTokens :: "fcm_token list option"
  lastLogin :: "int option"

record customer =
  cust_id :: string
  userId :: "string option"
  cust_email :: "string option"
  cust_name :: string
  cust_phoneNumber :: "string option"
  cust_isVerified :: bool
  cust_provider :: "string option"

text \<open>
  The store: the two account collections and the customers. Ids are unique within a
  collection, so an update \<open>where: { id }\<close> changes the one row that carries the id.
\<close>

record db =
  users :: "account list"
  admins :: "account list"
  customers :: "customer list"

definition findUnique_email :: "account list \<Rightarrow> string \<Rightarrow> account option" where
  "findUnique_email coll e = find (\<lambda>a. email a = e) coll"

definition findFirst_phone :: "account list \<Rightarrow> string \<Rightarrow> account option" where
  "findFirst_phone coll p = find (\<lambda>a. phoneNumber a = Some p) coll"

definition update_id :: "account list \<Rightarrow> string \<Rightarrow> (account \<Rightarrow> account) \<Rightarrow> account list" where
  "update_id coll i f = map (\<lambda>a. if acc_id a = i then f a else a) coll"

definition customer_updateMany_userId ::
  "customer list \<Rightarrow> string \<Rightarrow> (customer \<Rightarrow> customer) \<Rightarrow> customer list" where
  "customer_updateMany_userId cs i f = map (\<lambda>c. if userId c = Some i then f c else c) cs"

text \<open>
  Calls to the external collaborators: the e-mail (recipient, subject, code) and the
  notifications a controller starts with \<open>setImmediate\<close> after the response is written,
  and the session the login registers with the session tracker (account id, token).
\<close>

datatype effect =
    OtpEmail string string string
  | WelcomeNotification string string
  | NewUserRegistrationAlert string string "string option"
  | AddSession string string

record outcome =
  reply :: response
  store :: db
  effects :: "effect list"

text \<open>\<open>Array.isArray(user.emailOTPs) ? user.emailOTPs : []\<close>\<close>

definition otpArray_of :: "account \<Rightarrow> otp_entry list" where
  "otpArray_of u = (case emailOTPs u of Some xs \<Rightarrow> xs | None \<Rightarrow> [])"

text \<open>
  The lookup both verifyOTP and resendOTP start with: the user collection first, then the
  admin collection; the second component is \<open>userType\<close>.
\<close>

definition findInBoth :: "db \<Rightarrow> string \<Rightarrow> (account \<times> string) option" where
  "findInBoth d e =
     (case findUnique_email (users d) e of
        Some u \<Rightarrow> Some (u, ''user'')
      | None \<Rightarrow>
          (case findUnique_email (admins d) e of
             Some u \<Rightarrow> Some (u, ''admin'')
           | None \<Rightarrow> None))"

subsection \<open>verifyOTP\<close>

text \<open>
  The loop \<open>for (let i = otpArray.length - 1; i >= 0; i--)\<close>: \<open>scanOTPs now code arr n\<close>
  has the indices below \<open>n\<close> left to visit and looks at index \<open>n - 1\<close> next.
\<close>

fun scanOTPs :: "int \<Rightarrow> string \<Rightarrow> otp_entry list \<Rightarrow> nat \<Rightarrow> otp_entry option" where
  "scanOTPs now code arr 0 = None"
| "scanOTPs now code arr (Suc i) =
     (let otpEntry = arr ! i in
      if otp otpEntry = code \<and> expiresAt otpEntry > now then Some otpEntry
      else scanOTPs now code arr i)"

definition required_reply :: response where
  "required_reply =
     \<lparr>status = 400, body = [(''success'', JBool False), (''error'', JStr ''Email and OTP are required'')]\<rparr>"

definition not_found_reply :: response where
  "not_found_reply =
     \<lparr>status = 404, body = [(''success'', JBool False), (''error'', JStr ''User not found'')]\<rparr>"

definition already_verified_reply :: response where
  "already_verified_reply =
     \<lparr>status = 200, body = [(''success'', JBool True), (''message'', JStr ''Email already verified''),
        (''alreadyVerified'', JBool True)]\<rparr>"

definition no_otp_reply :: response where
  "no_otp_reply =
     \<lparr>status = 400, body = [(''success'', JBool False),
        (''error'', JStr ''No OTP found. Please request a new OTP.'')]\<rparr>"

definition expired_reply :: response where
  "expired_reply =
     \<lparr>status = 400, body = [(''success'', JBool False),
        (''error'', JStr ''OTP has expired. Please request a new OTP.''), (''expired'', JBool True)]\<rparr>"

definition invalid_reply :: response where
  "invalid_reply =
     \<lparr>status = 400, body = [(''success'', JBool False),
        (''error'', JStr ''Invalid OTP. Please check and try again.'')]\<rparr>"

definition verified_reply :: "account \<Rightarrow> string \<Rightarrow> response" where
  "verified_reply verifiedUser userType =
     \<lparr>status = 200, body = [(''success'', JBool True), (''message'', JStr ''Email verified successfully''),
        (''data'', JObj [(''id'', JStr (acc_id verifiedUser)), (''email'', JStr (email verifiedUser)),
           (''name'', JStr (name verifiedUser)), (''isVerified'', JBool True),
           (''role'', JStr userType)])]\<rparr>"

definition markVerified :: "account \<Rightarrow> account" where
  "markVerified u = u\<lparr>isVerified := True, emailOTPs := Some []\<rparr>"

text \<open>
  \<open>verifyOTP now req_email req_otp d\<close>: \<open>now\<close> is the clock read by \<open>new Date()\<close>,
  \<open>req_email\<close> and \<open>req_otp\<close> are the two fields of the request body. A failure of the
  database itself (the outer \<open>catch\<close>, status 500) is outside the model.
\<close>

definition verifyOTP :: "int \<Rightarrow> string option \<Rightarrow> string option \<Rightarrow> db \<Rightarrow> outcome" where
  "verifyOTP now req_email req_otp d =
     (if falsy req_email \<or> falsy req_otp then \<lparr>reply = required_reply, store = d, effects = []\<rparr>
      else
        (case findInBoth d (the req_email) of
           None \<Rightarrow> \<lparr>reply = not_found_reply, store = d, effects = []\<rparr>
         | Some (user, userType) \<Rightarrow>
             if isVerified user then \<lparr>reply = already_verified_reply, store = d, effects = []\<rparr>
             else
               let otpArray = otpArray_of user in
               if length otpArray = 0 then \<lparr>reply = no_otp_reply, store = d, effects = []\<rparr>
               else
                 (case scanOTPs now (the req_otp) otpArray (length otpArray) of
                    None \<Rightarrow>
                      (case find (\<lambda>entry. otp entry = the req_otp) otpArray of
                         Some expiredOTP \<Rightarrow> \<lparr>reply = expired_reply, store = d, effects = []\<rparr>
                       | None \<Rightarrow> \<lparr>reply = invalid_reply, store = d, effects = []\<rparr>)
                  | Some validOTP \<Rightarrow>
                      if userType = ''admin'' then
                        \<lparr>reply = verified_reply (markVerified user) userType,
                         store = d\<lparr>admins := update_id (admins d) (acc_id user) markVerified\<rparr>,
                         effects = []\<rparr>
                      else
                        \<lparr>reply = verified_reply (markVerified user) userType,
                         store = d\<lparr>users := update_id (users d) (acc_id user) markVerified,
                                   customers := customer_updateMany_userId (customers d) (acc_id user)
                                                  (\<lambda>c. c\<lparr>cust_isVerified := True\<rparr>)\<rparr>,
                         effects = [WelcomeNotification (acc_id user) (name user)]\<rparr>)))"

subsection \<open>resendOTP\<close>

definition email_required_reply :: response where
  "email_required_reply =
     \<lparr>status = 400, body = [(''success'', JBool False), (''error'', JStr ''Email is required'')]\<rparr>"

definition resent_reply :: "account \<Rightarrow> response" where
  "resent_reply user =
     \<lparr>status = 200, body = [(''success'', JBool True), (''message'', JStr ''New OTP sent to your email''),
        (''data'', JObj [(''email'', JStr (email user)), (''otpSent'', JBool True)])]\<rparr>"

text \<open>\<open>existingOTPs.slice(-4)\<close>: the last four elements, or all of them when there are fewer.\<close>

definition slice_last4 :: "'a list \<Rightarrow> 'a list" where
  "slice_last4 xs = drop (length xs - 4) xs"

text \<open>
  \<open>generateOTP()\<close> draws the code at random and the expiry and the creation time come from
  two readings of the clock (\<open>Date.now()\<close>, then \<open>new Date()\<close>); the three are
  arguments here: \<open>new_otp\<close>, \<open>clock\<close> and \<open>clock'\<close>.
\<close>

definition new_entry :: "string \<Rightarrow> int \<Rightarrow> int \<Rightarrow> otp_entry" where
  "new_entry new_otp clock clock' =
     \<lparr>otp = new_otp, expiresAt = clock + 10 * 60 * 1000, createdAt = clock'\<rparr>"

definition updatedOTPs :: "account \<Rightarrow> string \<Rightarrow> int \<Rightarrow> int \<Rightarrow> otp_entry list" where
  "updatedOTPs user new_otp clock clock' =
     slice_last4 (otpArray_of user) @ [new_entry new_otp clock clock']"

definition resendOTP :: "string \<Rightarrow> int \<Rightarrow> int \<Rightarrow> string option \<Rightarrow> db \<Rightarrow> outcome" where
  "resendOTP new_otp clock clock' req_email d =
     (if falsy req_email then \<lparr>reply = email_required_reply, store = d, effects = []\<rparr>
      else
        (case findInBoth d (the req_email) of
           None \<Rightarrow> \<lparr>reply = not_found_reply, store = d, effects = []\<rparr>
         | Some (user, userType) \<Rightarrow>
             if isVerified user then \<lparr>reply = already_verified_reply, store = d, effects = []\<rparr>
             else
               let setOTPs = (\<lambda>u. u\<lparr>emailOTPs := Some (updatedOTPs user new_otp clock clock')\<rparr>) in
               \<lparr>reply = resent_reply user,
                store = (if userType = ''admin''
                         then d\<lparr>admins := update_id (admins d) (acc_id user) setOTPs\<rparr>
                         else d\<lparr>users := update_id (users d) (acc_id user) setOTPs\<rparr>),
                effects = [OtpEmail (the req_email) ''Verify Your Email - New OTP Code'' new_otp]\<rparr>))"

text \<open>
  A run of resend requests for one address, each with its own generated code and clock
  readings, oldest request first.
\<close>

fun resend_all :: "(string \<times> int \<times> int) list \<Rightarrow> string \<Rightarrow> db \<Rightarrow> db" where
  "resend_all [] em d = d"
| "resend_all ((new_otp, clock, clock') # rest) em d =
     resend_all rest em (store (resendOTP new_otp clock clock' (Some em) d))"

subsection \<open>mobileLogin\<close>

text \<open>\<open>/\S+@\S+\.\S+/\<close>, searched anywhere in the identifier.\<close>

definition loginEmailRegex :: rx where
  "loginEmailRegex =
     (let S = Class (\<lambda>c. \<not> is_space c) in
      Cat (rx_plus S) (Cat (Class (\<lambda>c. c = CHR ''@''))
        (Cat (rx_plus S) (Cat (Class (\<lambda>c. c = CHR ''.'')) (rx_plus S)))))"

text \<open>
  What the login takes from outside: the two readings of the clock, \<open>bcrypt.compare\<close>,
  the token \<open>jwt.sign\<close> issues for an account id, and the \<open>user-agent\<close> header.
\<close>

record login_env =
  login_clock :: int
  token_clock :: int
  bcrypt_compare :: "string \<Rightarrow> string \<Rightarrow> bool"
  generateToken :: "string \<Rightarrow> string"
  user_agent :: "string option"

definition login_required_reply :: response where
  "login_required_reply =
     \<lparr>status = 400, body = [(''success'', JBool False),
        (''error'', JStr ''Email or phone number and password are required'')]\<rparr>"

definition login_not_found_reply :: response where
  "login_not_found_reply =
     \<lparr>status = 401, body = [(''success'', JBool False),
        (''error'', JStr ''Invalid email/phone number or password'')]\<rparr>"

definition deactivated_reply :: response where
  "deactivated_reply =
     \<lparr>status = 401, body = [(''success'', JBool False),
        (''error'', JStr ''Account is deactivated. Please contact administrator.'')]\<rparr>"

definition needs_verification_reply :: response where
  "needs_verification_reply =
     \<lparr>status = 401, body = [(''success'', JBool False),
        (''error'', JStr ''Please verify your email before signing in. Check your inbox for the OTP.''),
        (''needsVerification'', JBool True)]\<rparr>"

definition use_google_reply :: response where
  "use_google_reply =
     \<lparr>status = 401, body = [(''success'', JBool False), (''error'', JStr ''Please sign in with Google''),
        (''useGoogleAuth'', JBool True)]\<rparr>"

definition wrong_password_reply :: response where
  "wrong_password_reply =
     \<lparr>status = 401, body = [(''success'', JBool False), (''error'', JStr ''Invalid email or password'')]\<rparr>"

definition login_failed_reply :: response where
  "login_failed_reply =
     \<lparr>status = 500, body = [(''success'', JBool False), (''error'', JStr ''Login failed'')]\<rparr>"

definition json_opt :: "string option \<Rightarrow> json" where
  "json_opt x = (case x of None \<Rightarrow> JNull | Some s \<Rightarrow> JStr s)"

text \<open>
  The success payload; of the profile fields copied from the account only those the model
  keeps are listed (the address, image, date of birth and company fields are left out).
\<close>

definition login_ok_reply :: "string \<Rightarrow> account \<Rightarrow> string \<Rightarrow> response" where
  "login_ok_reply tok user userType =
     \<lparr>status = 200, body = [(''success'', JBool True), (''message'', JStr ''Login successful''),
        (''data'', JObj [(''token'', JStr tok),
           (''user'', JObj [(''id'', JStr (acc_id user)), (''email'', JStr (email user)),
              (''name'', JStr (name user)), (''role'', JStr userType),
              (''isVerified'', JBool (isVerified user)),
              (''phoneNumber'', json_opt (phoneNumber user))])])]\<rparr>"

text \<open>
  The device list after a login with a token: the token is filtered out of the existing
  list, put at the front with the device and the time, and the list is cut to ten.
\<close>

definition pushToken :: "login_env \<Rightarrow> string \<Rightarrow> account \<Rightarrow> fcm_token list" where
  "pushToken env fcmToken user =
     (let existingTokens = (case fcmTokens user of Some ts \<Rightarrow> ts | None \<Rightarrow> []);
          dev = (if falsy (user_agent env) then ''Mobile App'' else the (user_agent env));
          filteredTokens = filter (\<lambda>t. token t \<noteq> fcmToken) existingTokens
      in take 10 (\<lparr>token = fcmToken, device = dev, lastUsed = token_clock env\<rparr> # filteredTokens))"

definition loginUpdate :: "login_env \<Rightarrow> string option \<Rightarrow> account \<Rightarrow> account \<Rightarrow> account" where
  "loginUpdate env req_fcmToken user a =
     (if falsy req_fcmToken then a\<lparr>lastLogin := Some (login_clock env)\<rparr>
      else a\<lparr>lastLogin := Some (login_clock env),
             fcmTokens := Some (pushToken env (the req_fcmToken) user)\<rparr>)"

text \<open>The lookup of the login: by e-mail when the identifier looks like one, else by phone.\<close>

definition findLogin :: "db \<Rightarrow> string \<Rightarrow> (account \<times> string) option" where
  "findLogin d ident =
     (let isEmail = rx_search loginEmailRegex ident;
          look = (\<lambda>coll. if isEmail then findUnique_email coll ident else findFirst_phone coll ident)
      in case look (users d) of
           Some u \<Rightarrow> Some (u, ''user'')
         | None \<Rightarrow> (case look (admins d) of Some u \<Rightarrow> Some (u, ''admin'') | None \<Rightarrow> None))"

text \<open>
  \<open>mobileLogin env req_email req_password req_fcmToken d\<close>. \<open>bcrypt.compare\<close> throws
  when the stored hash is missing, which the outer \<open>catch\<close> turns into status 500.
\<close>

definition mobileLogin ::
  "login_env \<Rightarrow> string option \<Rightarrow> string option \<Rightarrow> string option \<Rightarrow> db \<Rightarrow> outcome" where
  "mobileLogin env req_email req_password req_fcmToken d =
     (if falsy req_email \<or> falsy req_password then \<lparr>reply = login_required_reply, store = d, effects = []\<rparr>
      else
        (case findLogin d (the req_email) of
           None \<Rightarrow> \<lparr>reply = login_not_found_reply, store = d, effects = []\<rparr>
         | Some (user, userType) \<Rightarrow>
             if \<not> isActive user then \<lparr>reply = deactivated_reply, store = d, effects = []\<rparr>
             else if \<not> isVerified user then \<lparr>reply = needs_verification_reply, store = d, effects = []\<rparr>
             else if falsy (password user) \<and> provider user = Some ''google''
               then \<lparr>reply = use_google_reply, store = d, effects = []\<rparr>
             else
               (case password user of
                  None \<Rightarrow> \<lparr>reply = login_failed_reply, store = d, effects = []\<rparr>
                | Some hash \<Rightarrow>
                    if \<not> bcrypt_compare env (the req_password) hash
                      then \<lparr>reply = wrong_password_reply, store = d, effects = []\<rparr>
                    else
                      \<lparr>reply = login_ok_reply (generateToken env (acc_id user)) user userType,
                       store = (if userType = ''admin''
                                then d\<lparr>admins := update_id (admins d) (acc_id user)
                                                     (loginUpdate env req_fcmToken user)\<rparr>
                                else d\<lparr>users := update_id (users d) (acc_id user)
                                                    (loginUpdate env req_fcmToken user)\<rparr>),
                       effects = [AddSession (acc_id user) (generateToken env (acc_id user))]\<rparr>)))"

subsection \<open>mobileRegister\<close>

text \<open>\<open>/^[^\s@]+@[^\s@]+\.[^\s@]+$/\<close> and \<open>/^\+?[\d\s-]{10,15}$/\<close>.\<close>

definition emailRegex :: rx where
  "emailRegex =
     (let C = Class (\<lambda>c. \<not> (is_space c \<or> c = CHR ''@'')) in
      Cat (rx_plus C) (Cat (Class (\<lambda>c. c = CHR ''@''))
        (Cat (rx_plus C) (Cat (Class (\<lambda>c. c = CHR ''.'')) (rx_plus C)))))"

definition phoneRegex :: rx where
  "phoneRegex =
     Cat (rx_opt (Class (\<lambda>c. c = CHR ''+'')))
         (rx_range 10 15 (Class (\<lambda>c. is_digit c \<or> is_space c \<or> c = CHR ''-'')))"

text \<open>
  What the registration takes from outside: the configured admin address
  (\<open>process.env.ADMIN_EMAIL\<close>), \<open>bcrypt.hash\<close> with cost 12, the generated code, the two
  readings of the clock, the ids the database gives the new rows, and the values the
  database gives the columns the controller does not set (in \<open>column_defaults\<close>; the
  schema is not part of the sources).
\<close>

record register_env =
  ADMIN_EMAIL :: "string option"
  bcrypt_hash :: "string \<Rightarrow> string"
  generateOTP :: string
  date_now :: int
  new_date :: int
  fresh_user_id :: string
  fresh_customer_id :: string
  column_defaults :: account

definition fields_required_reply :: response where
  "fields_required_reply =
     \<lparr>status = 400, body = [(''success'', JBool False),
        (''error'', JStr ''Email, password, name, and phone number are required'')]\<rparr>"

definition invalid_email_reply :: response where
  "invalid_email_reply =
     \<lparr>status = 400, body = [(''success'', JBool False), (''error'', JStr ''Invalid email format'')]\<rparr>"

definition invalid_phone_reply :: response where
  "invalid_phone_reply =
     \<lparr>status = 400, body = [(''success'', JBool False), (''error'', JStr ''Invalid phone number format'')]\<rparr>"

definition already_exists_reply :: response where
  "already_exists_reply =
     \<lparr>status = 400, body = [(''success'', JBool False),
        (''error'', JStr ''Account already exists. Please sign in with your email or phone number and password.'')]\<rparr>"

definition registered_reply :: "account \<Rightarrow> bool \<Rightarrow> response" where
  "registered_reply user isAdmin =
     \<lparr>status = 201, body = [(''success'', JBool True),
        (''message'', JStr ''Registration successful. Please check your email for OTP to verify your account.''),
        (''data'', JObj [(''id'', JStr (acc_id user)), (''email'', JStr (email user)),
           (''name'', JStr (name user)), (''role'', JStr (if isAdmin then ''admin'' else ''user'')),
           (''otpSent'', JBool True)])]\<rparr>"

definition isAdminEmail :: "register_env \<Rightarrow> string \<Rightarrow> bool" where
  "isAdminEmail env em = (ADMIN_EMAIL env = Some (toLowerCase em))"

definition userData :: "register_env \<Rightarrow> string \<Rightarrow> string \<Rightarrow> string \<Rightarrow> string \<Rightarrow> account" where
  "userData env em pw nm phone =
     (column_defaults env)\<lparr>acc_id := fresh_user_id env, email := em,
        password := Some (bcrypt_hash env pw), name := nm, phoneNumber := Some phone,
        emailOTPs := Some [\<lparr>otp = generateOTP env, expiresAt = date_now env + 10 * 60 * 1000,
                            createdAt = new_date env\<rparr>]\<rparr>"

text \<open>
  The customer record of a new regular user: an existing customer with the same e-mail
  or phone number is linked, otherwise one is created. The result is the new customer
  list and \<open>customerId\<close>.
\<close>

definition linkCustomer :: "register_env \<Rightarrow> account \<Rightarrow> customer list \<Rightarrow> customer list \<times> string option" where
  "linkCustomer env user cs =
     (case find (\<lambda>c. cust_email c = Some (email user) \<or> cust_phoneNumber c = phoneNumber user) cs of
        Some existingCustomer \<Rightarrow>
          (map (\<lambda>c. if cust_id c = cust_id existingCustomer
                     then c\<lparr>userId := Some (acc_id user), cust_isVerified := cust_isVerified existingCustomer\<rparr>
                     else c) cs,
           Some (cust_id existingCustomer))
      | None \<Rightarrow>
          (cs @ [\<lparr>cust_id = fresh_customer_id env, userId = Some (acc_id user),
                   cust_email = Some (email user), cust_name = name user,
                   cust_phoneNumber = phoneNumber user, cust_isVerified = False,
                   cust_provider = Some ''local''\<rparr>],
           Some (fresh_customer_id env)))"

text \<open>
  \<open>mobileRegister env req_email req_password req_name req_phoneNumber d\<close>. The two
  existence checks look into both collections, whichever kind the new account is.
\<close>

definition mobileRegister ::
  "register_env \<Rightarrow> string option \<Rightarrow> string option \<Rightarrow> string option \<Rightarrow> string option \<Rightarrow> db \<Rightarrow> outcome" where
  "mobileRegister env req_email req_password req_name req_phoneNumber d =
     (if falsy req_email \<or> falsy req_password \<or> falsy req_name \<or> falsy req_phoneNumber
        then \<lparr>reply = fields_required_reply, store = d, effects = []\<rparr>
      else
        let em = the req_email; pw = the req_password; nm = the req_name; phone = the req_phoneNumber in
        if \<not> matches emailRegex em then \<lparr>reply = invalid_email_reply, store = d, effects = []\<rparr>
        else if \<not> matches phoneRegex phone then \<lparr>reply = invalid_phone_reply, store = d, effects = []\<rparr>
        else
          let isAdmin = isAdminEmail env em;
              existingUser = (if isAdmin then findUnique_email (admins d) em else findUnique_email (users d) em);
              existingInOtherCollection =
                (if isAdmin then findUnique_email (users d) em else findUnique_email (admins d) em)
          in
          if existingUser \<noteq> None \<or> existingInOtherCollection \<noteq> None
            then \<lparr>reply = already_exists_reply, store = d, effects = []\<rparr>
          else
            let existingPhone = (if isAdmin then findFirst_phone (admins d) phone else findFirst_phone (users d) phone);
                existingPhoneInOtherCollection =
                  (if isAdmin then findFirst_phone (users d) phone else findFirst_phone (admins d) phone)
            in
            if existingPhone \<noteq> None \<or> existingPhoneInOtherCollection \<noteq> None
              then \<lparr>reply = already_exists_reply, store = d, effects = []\<rparr>
            else
              let user = userData env em pw nm phone in
              if isAdmin then
                \<lparr>reply = registered_reply user isAdmin,
                 store = d\<lparr>admins := admins d @ [user]\<rparr>,
                 effects = [OtpEmail em ''Verify Your Email - OTP Code'' (generateOTP env)]\<rparr>
              else
                (case linkCustomer env user (customers d) of
                   (cs, customerId) \<Rightarrow>
                     \<lparr>reply = registered_reply user isAdmin,
                      store = d\<lparr>users := users d @ [user], customers := cs\<rparr>,
                      effects = [OtpEmail em ''Verify Your Email - OTP Code'' (generateOTP env),
                                 NewUserRegistrationAlert (name user) (email user) customerId]\<rparr>))"

section \<open>The alert schedulers\<close>

text \<open>
  What a notification call returns: \<open>result.success\<close> is truthy (\<open>Sent\<close>) or not
  (\<open>NotSent\<close>), or the call throws, which the \<open>catch\<close> around the loop body logs.
  Prices are JavaScript numbers; the model compares them as the real numbers they denote
  and does not model the rounding of sums and products, on which no decision depends.
  A failure of a database call inside a loop body is outside the model.
\<close>

datatype send_result = Sent | NotSent | Threw

subsection \<open>checkAbandonedCarts\<close>












subsection \<open>checkWishlistPriceDrops and checkWishlistBackInStock\<close>

text \<open>
  The snapshot a wishlist item carries (\<open>productData\<close>, a JSON document) with the fields
  the schedulers read, and the live product with its variants.
\<close>

record product_data =
  productName :: "string option"
  variantName :: "string option"
  variantSellingPrice :: "real jsval"
  price :: "real jsval"
  variantIndex :: "int jsval"
  variantStockQuantity :: "int jsval"

record customer_ref =
  ref_userId :: string
  ref_name :: string

record wishlist_item =
  item_id :: string
  productId :: string
  productData :: "product_data option"
  customer_of :: "customer_ref option"

record variant =
  live_variantSellingPrice :: "real jsval"

record online_product =
  product_id :: string
  live_productName :: "string option"
  variants :: "variant list option"

text \<open>\<open>a || b\<close> on strings that may be missing: the first one that is present and non-empty.\<close>

definition str_or :: "string option \<Rightarrow> string option \<Rightarrow> string option" where
  "str_or a b = (if falsy a then b else a)"

text \<open>\<open>variants?.[i]\<close>: nothing when there is no array or the index is outside it.\<close>

definition variant_at :: "variant list option \<Rightarrow> int \<Rightarrow> variant option" where
  "variant_at vs i =
     (case vs of None \<Rightarrow> None
      | Some xs \<Rightarrow> if 0 \<le> i \<and> nat i < length xs then Some (xs ! nat i) else None)"

definition wishlistItem_update :: "wishlist_item list \<Rightarrow> string \<Rightarrow> product_data \<Rightarrow> wishlist_item list" where
  "wishlistItem_update items i pd = map (\<lambda>w. if item_id w = i then w\<lparr>productData := Some pd\<rparr> else w) items"

text \<open>The arguments of \<open>sendPriceDropAlert\<close>.\<close>

record price_alert =
  alert_userId :: string
  alert_productName :: "string option"
  alert_storedPrice :: "real jsval"
  alert_currentPrice :: "real jsval"
  alert_productId :: string

record price_sweep =
  wishlist :: "wishlist_item list"
  priceAlertsSent :: nat
  alertResults :: "(bool \<times> string option \<times> string) list"
  priceAlerts :: "price_alert list"

definition storedPrice_of :: "product_data \<Rightarrow> real jsval" where
  "storedPrice_of pd = js_or (variantSellingPrice pd) (price pd)"

text \<open>The body of the loop over the wishlist items of the price-drop sweep.\<close>

definition priceDropStep ::
  "(price_alert \<Rightarrow> send_result) \<Rightarrow> online_product list \<Rightarrow> wishlist_item \<Rightarrow> price_sweep \<Rightarrow> price_sweep" where
  "priceDropStep sendPriceDropAlert products item st =
     (case (productData item, customer_of item) of
        (Some pd, Some customer) \<Rightarrow>
          (case find (\<lambda>p. product_id p = productId item) products of
             None \<Rightarrow> st
           | Some currentProduct \<Rightarrow>
               let storedPrice = storedPrice_of pd;
                   idx = js_or_num (variantIndex pd) 0
               in
               (case variant_at (variants currentProduct) idx of
                  None \<Rightarrow> st
                | Some currentVariant \<Rightarrow>
                    let currentPrice = live_variantSellingPrice currentVariant in
                    if js_lt currentPrice storedPrice then
                      let nm = str_or (productName pd) (live_productName currentProduct);
                          call = \<lparr>alert_userId = ref_userId customer, alert_productName = nm,
                                  alert_storedPrice = storedPrice, alert_currentPrice = currentPrice,
                                  alert_productId = productId item\<rparr>;
                          st' = st\<lparr>priceAlerts := priceAlerts st @ [call]\<rparr>
                      in
                      (case sendPriceDropAlert call of
                         Sent \<Rightarrow>
                           st'\<lparr>priceAlertsSent := priceAlertsSent st + 1,
                               wishlist := wishlistItem_update (wishlist st) (item_id item)
                                             (pd\<lparr>variantSellingPrice := currentPrice, price := currentPrice\<rparr>),
                               alertResults := alertResults st @ [(True, nm, ref_name customer)]\<rparr>
                       | NotSent \<Rightarrow> st'\<lparr>alertResults := alertResults st @ [(False, nm, ref_name customer)]\<rparr>
                       | Threw \<Rightarrow> st')
                    else st))
      | _ \<Rightarrow> st)"


text \<open>The arguments of \<open>sendBackInStockAlert\<close>.\<close>

record stock_alert =
  stock_userId :: string
  stock_productName :: string
  stock_quantity :: int
  stock_productId :: string

record stock_check =
  stock_wishlist :: "wishlist_item list"
  stockAlertsSent :: nat
  stockAlerts :: "stock_alert list"

definition itemVariantIndex_of :: "product_data \<Rightarrow> int" where
  "itemVariantIndex_of pd = js_or_num (variantIndex pd) 0"

definition previousStock_of :: "product_data \<Rightarrow> int" where
  "previousStock_of pd = js_or_num (variantStockQuantity pd) 0"

text \<open>The body of the loop over the wishlist items of the back-in-stock check.\<close>

definition backInStockStep ::
  "(stock_alert \<Rightarrow> send_result) \<Rightarrow> string \<Rightarrow> int \<Rightarrow> int \<Rightarrow> wishlist_item \<Rightarrow> stock_check \<Rightarrow> stock_check" where
  "backInStockStep sendBackInStockAlert pid updatedIndex newStockQuantity item st =
     (case productData item of
        None \<Rightarrow> st
      | Some pd \<Rightarrow>
          (case customer_of item of
             None \<Rightarrow> st
           | Some customer \<Rightarrow>
               let itemVariantIndex = itemVariantIndex_of pd in
               if itemVariantIndex \<noteq> updatedIndex then st
               else
                 let previousStock = previousStock_of pd in
                 if previousStock = 0 \<and> newStockQuantity > 0 then
                   let call = \<lparr>stock_userId = ref_userId customer,
                               stock_productName =
                                 (case str_or (str_or (productName pd) (variantName pd)) (Some ''Product'') of
                                    Some s \<Rightarrow> s | None \<Rightarrow> ''Product''),
                               stock_quantity = newStockQuantity, stock_productId = pid\<rparr>;
                       st' = st\<lparr>stockAlerts := stockAlerts st @ [call]\<rparr>
                   in
                   (if sendBackInStockAlert call = Sent then
                      st'\<lparr>stockAlertsSent := stockAlertsSent st + 1,
                          stock_wishlist := wishlistItem_update (stock_wishlist st) (item_id item)
                                              (pd\<lparr>variantStockQuantity := Num newStockQuantity\<rparr>)\<rparr>
                    else st')
                 else st))"

definition checkWishlistBackInStock ::
  "(stock_alert \<Rightarrow> send_result) \<Rightarrow> wishlist_item list \<Rightarrow> string \<Rightarrow> int \<Rightarrow> int \<Rightarrow> stock_check \<times> nat option" where
  "checkWishlistBackInStock sendBackInStockAlert allItems pid updatedIndex newStockQuantity =
     (let wishlistItems = filter (\<lambda>w. productId w = pid) allItems;
          st0 = \<lparr>stock_wishlist = allItems, stockAlertsSent = 0, stockAlerts = []\<rparr>
      in
      if length wishlistItems = 0 then (st0, None)
      else (foldl (\<lambda>st item. backInStockStep sendBackInStockAlert pid updatedIndex newStockQuantity item st)
              st0 wishlistItems,
            Some (length wishlistItems)))"

section \<open>Expense numbers (generateExpenseNumber)\<close>

record expense =
  expenseNumber :: string
  expense_createdAt :: int

text \<open>
  The decimal numeral of a natural number, as \<open>Number.prototype.toString\<close> and a
  template literal print a non-negative integer.
\<close>

definition digit_of :: "nat \<Rightarrow> char" where
  "digit_of d = ''0123456789'' ! d"

fun dec :: "nat \<Rightarrow> string" where
  "dec n = (if n < 10 then [digit_of n] else dec (n div 10) @ [digit_of (n mod 10)])"

declare dec.simps [simp del]

text \<open>
  A JavaScript number that is an integer or NaN (\<open>None\<close>). The model computes with
  unbounded integers; JavaScript does so exactly below \<open>2 ^ 53\<close>.
\<close>

definition number_toString :: "int option \<Rightarrow> string" where
  "number_toString x =
     (case x of None \<Rightarrow> ''NaN''
      | Some n \<Rightarrow> if n < 0 then CHR ''-'' # dec (nat (- n)) else dec (nat n))"

definition digit_val :: "char \<Rightarrow> nat" where
  "digit_val c = of_char c - 48"

definition digits_val :: "string \<Rightarrow> nat" where
  "digits_val ds = foldl (\<lambda>a c. 10 * a + digit_val c) 0 ds"

text \<open>
  \<open>parseInt(x, 10)\<close>: leading white space is skipped, a sign is read, then the longest
  run of digits; without a digit the result is NaN, as it is for \<open>undefined\<close>.
\<close>

definition parseInt10 :: "string option \<Rightarrow> int option" where
  "parseInt10 x =
     (case x of None \<Rightarrow> None
      | Some s \<Rightarrow>
          let s1 = dropWhile is_space s;
              neg = (s1 \<noteq> [] \<and> hd s1 = CHR ''-'');
              s2 = (if s1 \<noteq> [] \<and> (hd s1 = CHR ''-'' \<or> hd s1 = CHR ''+'') then tl s1 else s1);
              ds = takeWhile is_digit s2
          in if ds = [] then None
             else Some (if neg then - int (digits_val ds) else int (digits_val ds)))"

text \<open>\<open>s.split("-")\<close>, \<open>parts[i]\<close>, \<open>s.startsWith(p)\<close> and \<open>s.padStart(3, "0")\<close>.\<close>

fun split_dash :: "string \<Rightarrow> string list" where
  "split_dash [] = [[]]"
| "split_dash (c # cs) =
     (if c = CHR ''-'' then [] # split_dash cs
      else (case split_dash cs of p # ps \<Rightarrow> (c # p) # ps | [] \<Rightarrow> [[c]]))"

definition part_at :: "string list \<Rightarrow> nat \<Rightarrow> string option" where
  "part_at parts i = (if i < length parts then Some (parts ! i) else None)"

definition startsWith :: "string \<Rightarrow> string \<Rightarrow> bool" where
  "startsWith s p = (take (length p) s = p)"

definition padStart3 :: "string \<Rightarrow> string" where
  "padStart3 s = replicate (3 - length s) CHR ''0'' @ s"

text \<open>
  \<open>findFirst\<close> with \<open>orderBy: { createdAt: "desc" }\<close>: the latest of the rows that
  satisfy the filter; among rows created at the same millisecond the model takes the one
  stored first.
\<close>

definition findFirst_latest :: "(expense \<Rightarrow> bool) \<Rightarrow> expense list \<Rightarrow> expense option" where
  "findFirst_latest P xs =
     (case filter P xs of
        [] \<Rightarrow> None
      | m # ms \<Rightarrow> Some (foldl (\<lambda>best e. if expense_createdAt e > expense_createdAt best then e else best) m ms))"

definition yearPrefix :: "nat \<Rightarrow> string" where
  "yearPrefix currentYear = ''EXP-'' @ dec currentYear @ ''-''"

definition generateExpenseNumber :: "nat \<Rightarrow> expense list \<Rightarrow> string" where
  "generateExpenseNumber currentYear expenses =
     (let latestExpense = findFirst_latest (\<lambda>e. startsWith (expenseNumber e) (yearPrefix currentYear)) expenses;
          nextNumber =
            (case latestExpense of
               None \<Rightarrow> Some 1
             | Some e \<Rightarrow>
                 let parts = split_dash (expenseNumber e);
                     lastNumber = parseInt10 (part_at parts 2)
                 in map_option (\<lambda>n. n + 1) lastNumber);
          paddedNumber = padStart3 (number_toString nextNumber)
      in ''EXP-'' @ dec currentYear @ ''-'' @ paddedNumber)"

text \<open>
  \<open>createExpense\<close>, as far as the number goes: the new row gets the generated number and
  the time of its creation.
\<close>

definition createExpense :: "nat \<Rightarrow> int \<Rightarrow> expense list \<Rightarrow> expense list" where
  "createExpense currentYear clock expenses =
     expenses @ [\<lparr>expenseNumber = generateExpenseNumber currentYear expenses, expense_createdAt = clock\<rparr>]"

section \<open>Notions used to state the properties of the OTP history\<close>

text \<open>The last \<open>n\<close> elements of a list (all of it when it is shorter).\<close>

definition take_last :: "nat \<Rightarrow> 'a list \<Rightarrow> 'a list" where
  "take_last n xs = drop (length xs - n) xs"

text \<open>The entry a resend request stores, from its generated code and clock readings.\<close>

definition entry_of :: "string \<times> int \<times> int \<Rightarrow> otp_entry" where
  "entry_of r = (case r of (new_otp, clock, clock') \<Rightarrow> new_entry new_otp clock clock')"

section \<open>Sequences of requests\<close>

text \<open>
  The four requests of the controller, each with what it takes from outside, and the
  store after serving a list of them in order.
\<close>

datatype request =
    Register register_env "string option" "string option" "string option" "string option"
  | Verify int "string option" "string option"
  | Resend string int int "string option"
  | Login login_env "string option" "string option" "string option"

fun handle :: "request \<Rightarrow> db \<Rightarrow> outcome" where
  "handle (Register env e p n ph) d = mobileRegister env e p n ph d"
| "handle (Verify now e code) d = verifyOTP now e code d"
| "handle (Resend new_otp clock clock' e) d = resendOTP new_otp clock clock' e d"
| "handle (Login env e p tok) d = mobileLogin env e p tok d"

fun serve :: "request list \<Rightarrow> db \<Rightarrow> db" where
  "serve [] d = d"
| "serve (r # rs) d = serve rs (store (handle r d))"

text \<open>The address belongs to an account that is verified.\<close>

definition verified_at :: "db \<Rightarrow> string \<Rightarrow> bool" where
  "verified_at d em = (case findInBoth d em of Some (u, t) \<Rightarrow> isVerified u | None \<Rightarrow> False)"

section \<open>Notions used to state the properties of the schedulers\<close>







text \<open>
  A wishlist item as it is stored after the price-drop step has run on it: the step is run
  on a wishlist that holds the item alone.
\<close>

definition settled :: "(price_alert \<Rightarrow> send_result) \<Rightarrow> online_product list \<Rightarrow> wishlist_item \<Rightarrow> wishlist_item" where
  "settled send products item =
     (case wishlist (priceDropStep send products item
              \<lparr>wishlist = [item], priceAlertsSent = 0, alertResults = [], priceAlerts = []\<rparr>) of
        w # rest \<Rightarrow> w
      | [] \<Rightarrow> item)"


definition stockAlertsFor :: "string \<Rightarrow> int \<Rightarrow> int \<Rightarrow> wishlist_item \<Rightarrow> stock_alert list" where
  "stockAlertsFor pid updatedIndex newStockQuantity item =
     stockAlerts (backInStockStep (\<lambda>c. Threw) pid updatedIndex newStockQuantity item
        \<lparr>stock_wishlist = [], stockAlertsSent = 0, stockAlerts = []\<rparr>)"



text \<open>The alert of the back-in-stock check for an item.\<close>

definition stockCall :: "string \<Rightarrow> int \<Rightarrow> product_data \<Rightarrow> customer_ref \<Rightarrow> stock_alert" where
  "stockCall pid newStockQuantity pd cu =
     \<lparr>stock_userId = ref_userId cu,
      stock_productName = (case str_or (str_or (productName pd) (variantName pd)) (Some ''Product'') of
                             Some s \<Rightarrow> s | None \<Rightarrow> ''Product''),
      stock_quantity = newStockQuantity, stock_productId = pid\<rparr>"

section \<open>Notions used to state the properties of the expense numbers\<close>

text \<open>Expenses created one after the other in the same year, at the given times.\<close>

fun createAll :: "nat \<Rightarrow> int list \<Rightarrow> expense list \<Rightarrow> expense list" where
  "createAll y [] xs = xs"
| "createAll y (clock # clocks) xs = createAll y clocks (createExpense y clock xs)"

text \<open>The bound below which JavaScript numbers are exact integers.\<close>

definition safe_integer :: "nat \<Rightarrow> bool" where
  "safe_integer n = (n < 2 ^ 53)"

text \<open>
  A wishlist item as it is stored after the back-in-stock step has run on it: the step is
  run on a wishlist that holds the item alone.
\<close>

definition restocked ::
  "(stock_alert \<Rightarrow> send_result) \<Rightarrow> string \<Rightarrow> int \<Rightarrow> int \<Rightarrow> wishlist_item \<Rightarrow> wishlist_item" where
  "restocked send pid updatedIndex newStockQuantity item =
     (case stock_wishlist (backInStockStep send pid updatedIndex newStockQuantity item
              \<lparr>stock_wishlist = [item], stockAlertsSent = 0, stockAlerts = []\<rparr>) of
        w # rest \<Rightarrow> w
      | [] \<Rightarrow> item)"

section \<open>A small store for worked examples\<close>

definition sample_user :: account where
  "sample_user =
     \<lparr>acc_id = ''u1'', email = ''ann@shop.in'', password = Some ''h:secret'', name = ''Ann'',
      phoneNumber = Some ''9876543210'', isVerified = False, isActive = True, provider = Some ''local'',
      emailOTPs = Some [\<lparr>otp = ''111111'', expiresAt = 100, createdAt = 0\<rparr>,
                        \<lparr>otp = ''222222'', expiresAt = 500, createdAt = 10\<rparr>],
      fcmTokens = Some [], lastLogin = None\<rparr>"

definition sample_db :: db where
  "sample_db =
     \<lparr>users = [sample_user], admins = [],
      customers = [\<lparr>cust_id = ''c1'', userId = Some ''u1'', cust_email = Some ''ann@shop.in'',
                    cust_name = ''Ann'', cust_phoneNumber = Some ''9876543210'',
                    cust_isVerified = False, cust_provider = Some ''local''\<rparr>]\<rparr>"

definition sample_verified_db :: db where
  "sample_verified_db = sample_db\<lparr>users := [markVerified sample_user]\<rparr>"

definition sample_login_env :: login_env where
  "sample_login_env =
     \<lparr>login_clock = 7000, token_clock = 7001, bcrypt_compare = (\<lambda>pw h. h = ''h:'' @ pw),
      generateToken = (\<lambda>i. ''jwt-'' @ i), user_agent = None\<rparr>"




definition sample_snapshot :: product_data where
  "sample_snapshot =
     \<lparr>productName = Some ''Mug'', variantName = Some ''Blue'', variantSellingPrice = Num 100, price = Num 100,
      variantIndex = Num 0, variantStockQuantity = Num 0\<rparr>"

definition sample_item :: wishlist_item where
  "sample_item =
     \<lparr>item_id = ''w1'', productId = ''p1'', productData = Some sample_snapshot,
      customer_of = Some \<lparr>ref_userId = ''u1'', ref_name = ''Ann''\<rparr>\<rparr>"


definition sample_expenses :: "expense list" where
  "sample_expenses =
     [\<lparr>expenseNumber = ''EXP-2025-041'', expense_createdAt = 5\<rparr>,
      \<lparr>expenseNumber = ''EXP-2025-007'', expense_createdAt = 3\<rparr>,
      \<lparr>expenseNumber = ''EXP-2024-999'', expense_createdAt = 9\<rparr>]"

section \<open>Properties of verifyOTP\<close>

lemma scanOTPs_find:
  "n \<le> length arr \<Longrightarrow>
   scanOTPs now code arr n = find (\<lambda>e. otp e = code \<and> now < expiresAt e) (rev (take n arr))"
proof (induction n)
  case 0
  show ?case by simp
next
  case (Suc n)
  then have "take (Suc n) arr = take n arr @ [arr ! n]"
    by (simp add: take_Suc_conv_app_nth)
  with Suc show ?case by (simp add: Let_def)
qed

lemma scanOTPs_all:
  "scanOTPs now code arr (length arr) = find (\<lambda>e. otp e = code \<and> now < expiresAt e) (rev arr)"
  using scanOTPs_find [of "length arr" arr now code] by simp

lemma scanOTPs_None_iff:
  "scanOTPs now code arr (length arr) = None \<longleftrightarrow> \<not> (\<exists>e\<in>set arr. otp e = code \<and> now < expiresAt e)"
  by (auto simp: scanOTPs_all find_None_iff)

lemma find_code_None_iff:
  "find (\<lambda>entry. otp entry = code) arr = None \<longleftrightarrow> \<not> (\<exists>e\<in>set arr. otp e = code)"
  by (auto simp: find_None_iff)

lemma falsy_Some [simp]: "falsy (Some s) \<longleftrightarrow> s = []"
  by (simp add: falsy_def)

lemma falsy_None [simp]: "falsy None"
  by (simp add: falsy_def)

lemma sample_lookup: "findInBoth sample_db ''ann@shop.in'' = Some (sample_user, ''user'')"
  by (simp add: findInBoth_def findUnique_email_def sample_db_def sample_user_def)

lemma sample_otps:
  "otpArray_of sample_user = [\<lparr>otp = ''111111'', expiresAt = 100, createdAt = 0\<rparr>,
                              \<lparr>otp = ''222222'', expiresAt = 500, createdAt = 10\<rparr>]"
  by (simp add: otpArray_of_def sample_user_def)

section \<open>Lookups after an update by id\<close>

lemma find_update_id:
  assumes "\<And>a. email (f a) = email a"
  shows "findUnique_email (update_id coll i f) e =
           map_option (\<lambda>a. if acc_id a = i then f a else a) (findUnique_email coll e)"
  by (induction coll) (auto simp: findUnique_email_def update_id_def assms)

lemma findInBoth_SomeD:
  "findInBoth d e = Some (u, t) \<Longrightarrow>
     (t = ''user'' \<and> findUnique_email (users d) e = Some u) \<or>
     (t = ''admin'' \<and> findUnique_email (users d) e = None \<and> findUnique_email (admins d) e = Some u)"
  by (auto simp: findInBoth_def split: option.splits)

lemma findInBoth_after_update:
  assumes found: "findInBoth d e = Some (u, t)"
    and keeps: "\<And>a. email (f a) = email a"
    and adm: "t = ''admin'' \<Longrightarrow> users d' = users d \<and> admins d' = update_id (admins d) (acc_id u) f"
    and usr: "t \<noteq> ''admin'' \<Longrightarrow> users d' = update_id (users d) (acc_id u) f \<and> admins d' = admins d"
  shows "findInBoth d' e = Some (f u, t)"
proof -
  from findInBoth_SomeD [OF found] show ?thesis
  proof
    assume a: "t = ''user'' \<and> findUnique_email (users d) e = Some u"
    then have "t \<noteq> ''admin''" by simp
    from usr [OF this] a show ?thesis
      by (simp add: findInBoth_def find_update_id [OF keeps])
  next
    assume a: "t = ''admin'' \<and> findUnique_email (users d) e = None \<and> findUnique_email (admins d) e = Some u"
    then have "t = ''admin''" by simp
    from adm [OF this] a show ?thesis
      by (simp add: findInBoth_def find_update_id [OF keeps])
  qed
qed

lemma markVerified_email: "email (markVerified a) = email a"
  by (simp add: markVerified_def)

lemma verifyOTP_accepts:
  assumes "em \<noteq> []" and "code \<noteq> []"
    and "findInBoth d em = Some (user, userType)"
    and "\<not> isVerified user"
    and "otpArray_of user \<noteq> []"
  shows "(\<exists>e\<in>set (otpArray_of user). otp e = code \<and> now < expiresAt e) \<longrightarrow>
            reply (verifyOTP now (Some em) (Some code) d) = verified_reply (markVerified user) userType"
proof
  assume "\<exists>e\<in>set (otpArray_of user). otp e = code \<and> now < expiresAt e"
  then obtain v where "scanOTPs now code (otpArray_of user) (length (otpArray_of user)) = Some v"
    using scanOTPs_None_iff [of now code "otpArray_of user"]
    by (cases "scanOTPs now code (otpArray_of user) (length (otpArray_of user))") auto
  with assms show "reply (verifyOTP now (Some em) (Some code) d) = verified_reply (markVerified user) userType"
    by (simp add: verifyOTP_def Let_def)
qed

lemma verifyOTP_already_verified:
  assumes "em \<noteq> []" and "code \<noteq> []"
    and "findInBoth d em = Some (u, t)" and "isVerified u"
  shows "verifyOTP now (Some em) (Some code) d = \<lparr>reply = already_verified_reply, store = d, effects = []\<rparr>"
  using assms by (simp add: verifyOTP_def)

lemma verifyOTP_success_store:
  assumes "em \<noteq> []" and "code \<noteq> []"
    and found: "findInBoth d em = Some (user, userType)"
    and "\<not> isVerified user"
    and valid: "\<exists>e\<in>set (otpArray_of user). otp e = code \<and> now < expiresAt e"
  shows "findInBoth (store (verifyOTP now (Some em) (Some code) d)) em = Some (markVerified user, userType)"
proof -
  from valid have ne: "otpArray_of user \<noteq> []" by auto
  from valid obtain v where scan: "scanOTPs now code (otpArray_of user) (length (otpArray_of user)) = Some v"
    using scanOTPs_None_iff [of now code "otpArray_of user"]
    by (cases "scanOTPs now code (otpArray_of user) (length (otpArray_of user))") auto
  show ?thesis
  proof (rule findInBoth_after_update [OF found markVerified_email])
    assume "userType = ''admin''"
    with assms ne scan
    show "users (store (verifyOTP now (Some em) (Some code) d)) = users d \<and>
          admins (store (verifyOTP now (Some em) (Some code) d)) = update_id (admins d) (acc_id user) markVerified"
      by (simp add: verifyOTP_def Let_def)
  next
    assume "userType \<noteq> ''admin''"
    with assms ne scan
    show "users (store (verifyOTP now (Some em) (Some code) d)) = update_id (users d) (acc_id user) markVerified \<and>
          admins (store (verifyOTP now (Some em) (Some code) d)) = admins d"
      by (simp add: verifyOTP_def Let_def)
  qed
qed

lemma reply_contents:
  "status (verified_reply u t) = 200"
  "map_of (body (verified_reply u t)) ''success'' = Some (JBool True)"
  "map_of (body (verified_reply u t)) ''message'' = Some (JStr ''Email verified successfully'')"
  "map_of (body (verified_reply u t)) ''data'' =
     Some (JObj [(''id'', JStr (acc_id u)), (''email'', JStr (email u)), (''name'', JStr (name u)),
                 (''isVerified'', JBool True), (''role'', JStr t)])"
  "status expired_reply = 400"
  "map_of (body expired_reply) ''success'' = Some (JBool False)"
  "map_of (body expired_reply) ''error'' = Some (JStr ''OTP has expired. Please request a new OTP.'')"
  "map_of (body expired_reply) ''expired'' = Some (JBool True)"
  "status invalid_reply = 400"
  "map_of (body invalid_reply) ''success'' = Some (JBool False)"
  "map_of (body invalid_reply) ''error'' = Some (JStr ''Invalid OTP. Please check and try again.'')"
  "map_of (body invalid_reply) ''expired'' = None"
  by (simp_all add: verified_reply_def expired_reply_def invalid_reply_def)

text \<open>
  C1. On an existing, unverified account with a non-empty OTP list, the entries are
  scanned from the newest (last) to the oldest and the entry accepted is the first one in
  that order whose code equals the submitted code and whose expiry is strictly after now;
  the call succeeds exactly when there is one. Success is status 200 with
  \<open>success: true\<close>, the message "Email verified successfully" and the account's id,
  e-mail, name and role with \<open>isVerified: true\<close>, and the account found by the address
  afterwards is verified. When no entry is both matching and unexpired but some entry
  carries the code, the reply is the "expired" payload (status 400, \<open>success: false\<close>,
  "OTP has expired. Please request a new OTP.", \<open>expired: true\<close>); when no entry carries
  the code, the reply is the "invalid OTP" payload (status 400, \<open>success: false\<close>,
  "Invalid OTP. Please check and try again.", no \<open>expired\<close> key); the three replies
  differ from one another, and the two failures leave the store as it is.
\<close>

theorem verifyOTP_expired_vs_invalid:
  assumes "em \<noteq> []" and "code \<noteq> []"
    and "findInBoth d em = Some (user, userType)"
    and "\<not> isVerified user"
    and "otpArray_of user \<noteq> []"
  shows "scanOTPs now code (otpArray_of user) (length (otpArray_of user)) =
           find (\<lambda>e. otp e = code \<and> now < expiresAt e) (rev (otpArray_of user))
       \<and> ((\<exists>e\<in>set (otpArray_of user). otp e = code \<and> now < expiresAt e) \<longrightarrow>
            reply (verifyOTP now (Some em) (Some code) d) = verified_reply (markVerified user) userType
          \<and> status (reply (verifyOTP now (Some em) (Some code) d)) = 200
          \<and> map_of (body (reply (verifyOTP now (Some em) (Some code) d))) ''success'' = Some (JBool True)
          \<and> map_of (body (reply (verifyOTP now (Some em) (Some code) d))) ''message'' =
               Some (JStr ''Email verified successfully'')
          \<and> map_of (body (reply (verifyOTP now (Some em) (Some code) d))) ''data'' =
               Some (JObj [(''id'', JStr (acc_id user)), (''email'', JStr (email user)),
                           (''name'', JStr (name user)), (''isVerified'', JBool True),
                           (''role'', JStr userType)])
          \<and> reply (verifyOTP now (Some em) (Some code) d) \<noteq> expired_reply
          \<and> reply (verifyOTP now (Some em) (Some code) d) \<noteq> invalid_reply
          \<and> (\<exists>user'. findInBoth (store (verifyOTP now (Some em) (Some code) d)) em = Some (user', userType)
                \<and> isVerified user' \<and> acc_id user' = acc_id user \<and> email user' = email user))
       \<and> (\<not> (\<exists>e\<in>set (otpArray_of user). otp e = code \<and> now < expiresAt e) \<and>
              (\<exists>e\<in>set (otpArray_of user). otp e = code) \<longrightarrow>
            verifyOTP now (Some em) (Some code) d = \<lparr>reply = expired_reply, store = d, effects = []\<rparr>)
       \<and> (\<not> (\<exists>e\<in>set (otpArray_of user). otp e = code) \<longrightarrow>
            verifyOTP now (Some em) (Some code) d = \<lparr>reply = invalid_reply, store = d, effects = []\<rparr>)
       \<and> expired_reply \<noteq> invalid_reply
       \<and> (''expired'', JBool True) \<in> set (body expired_reply)
       \<and> ''expired'' \<notin> fst ` set (body invalid_reply)
       \<and> status expired_reply = 400 \<and> status invalid_reply = 400
       \<and> map_of (body expired_reply) ''success'' = Some (JBool False)
       \<and> map_of (body invalid_reply) ''success'' = Some (JBool False)
       \<and> map_of (body expired_reply) ''error'' = Some (JStr ''OTP has expired. Please request a new OTP.'')
       \<and> map_of (body invalid_reply) ''error'' = Some (JStr ''Invalid OTP. Please check and try again.'')"
proof -
  let ?arr = "otpArray_of user"
  let ?R = "verifyOTP now (Some em) (Some code) d"
  let ?valid = "\<exists>e\<in>set ?arr. otp e = code \<and> now < expiresAt e"
  let ?known = "\<exists>e\<in>set ?arr. otp e = code"
  have scan: "scanOTPs now code ?arr (length ?arr) =
      find (\<lambda>e. otp e = code \<and> now < expiresAt e) (rev ?arr)"
    by (rule scanOTPs_all)
  have ok: "reply ?R = verified_reply (markVerified user) userType" if ?valid
    using verifyOTP_accepts [OF assms] that by blast
  have ok_status: "status (reply ?R) = 200" if ?valid
    by (simp only: ok [OF that] reply_contents)
  have ok_success: "map_of (body (reply ?R)) ''success'' = Some (JBool True)" if ?valid
    by (simp only: ok [OF that] reply_contents)
  have ok_message: "map_of (body (reply ?R)) ''message'' = Some (JStr ''Email verified successfully'')"
    if ?valid
    by (simp only: ok [OF that] reply_contents)
  have ok_data: "map_of (body (reply ?R)) ''data'' =
      Some (JObj [(''id'', JStr (acc_id user)), (''email'', JStr (email user)),
                  (''name'', JStr (name user)), (''isVerified'', JBool True), (''role'', JStr userType)])"
    if ?valid
    by (simp add: ok [OF that] reply_contents markVerified_def)
  have ok_ne1: "reply ?R \<noteq> expired_reply" if ?valid
  proof
    assume "reply ?R = expired_reply"
    then have "status (reply ?R) = status expired_reply" by simp
    with ok_status [OF that] show False by (simp add: reply_contents)
  qed
  have ok_ne2: "reply ?R \<noteq> invalid_reply" if ?valid
  proof
    assume "reply ?R = invalid_reply"
    then have "status (reply ?R) = status invalid_reply" by simp
    with ok_status [OF that] show False by (simp add: reply_contents)
  qed
  have ok_store: "\<exists>user'. findInBoth (store ?R) em = Some (user', userType)
      \<and> isVerified user' \<and> acc_id user' = acc_id user \<and> email user' = email user" if ?valid
  proof -
    have "findInBoth (store ?R) em = Some (markVerified user, userType)"
      by (rule verifyOTP_success_store [OF assms(1-4) that])
    then show ?thesis
      by (simp add: markVerified_def)
  qed
  have expired: "?R = \<lparr>reply = expired_reply, store = d, effects = []\<rparr>"
    if "\<not> ?valid" and ?known
  proof -
    from that(1) have none: "scanOTPs now code ?arr (length ?arr) = None"
      by (simp only: scanOTPs_None_iff not_False_eq_True)
    from that(2) obtain x where "find (\<lambda>entry. otp entry = code) ?arr = Some x"
      using find_code_None_iff [of code ?arr] by (cases "find (\<lambda>entry. otp entry = code) ?arr") auto
    with none assms show ?thesis
      by (simp add: verifyOTP_def Let_def)
  qed
  have invalid: "?R = \<lparr>reply = invalid_reply, store = d, effects = []\<rparr>"
    if "\<not> ?known"
  proof -
    from that have "\<not> ?valid" by blast
    then have none: "scanOTPs now code ?arr (length ?arr) = None"
      by (simp only: scanOTPs_None_iff not_False_eq_True)
    from that have "find (\<lambda>entry. otp entry = code) ?arr = None"
      by (simp only: find_code_None_iff not_False_eq_True)
    with none assms show ?thesis
      by (simp add: verifyOTP_def Let_def)
  qed
  have differ: "expired_reply \<noteq> invalid_reply"
    by (simp add: expired_reply_def invalid_reply_def)
  have flag: "(''expired'', JBool True) \<in> set (body expired_reply)"
    by (simp add: expired_reply_def)
  have noflag: "''expired'' \<notin> fst ` set (body invalid_reply)"
    by (simp add: invalid_reply_def)
  note c = reply_contents(5-7,9-11)
  from scan ok ok_status ok_success ok_message ok_data ok_ne1 ok_ne2 ok_store expired invalid
    differ flag noflag c
  show ?thesis
    by blast
qed

theorem verifyOTP_expired_vs_invalid_witness:
  "verifyOTP 200 (Some ''ann@shop.in'') (Some ''111111'') sample_db =
     \<lparr>reply = expired_reply, store = sample_db, effects = []\<rparr>
   \<and> verifyOTP 200 (Some ''ann@shop.in'') (Some ''333333'') sample_db =
     \<lparr>reply = invalid_reply, store = sample_db, effects = []\<rparr>
   \<and> reply (verifyOTP 200 (Some ''ann@shop.in'') (Some ''222222'') sample_db) =
     verified_reply (markVerified sample_user) ''user''
   \<and> status (reply (verifyOTP 200 (Some ''ann@shop.in'') (Some ''222222'') sample_db)) = 200
   \<and> map_of (body (reply (verifyOTP 200 (Some ''ann@shop.in'') (Some ''222222'') sample_db))) ''success'' =
       Some (JBool True)
   \<and> map_of (body (reply (verifyOTP 200 (Some ''ann@shop.in'') (Some ''222222'') sample_db))) ''data'' =
       Some (JObj [(''id'', JStr ''u1''), (''email'', JStr ''ann@shop.in''), (''name'', JStr ''Ann''),
                   (''isVerified'', JBool True), (''role'', JStr ''user'')])"
proof -
  have unverified: "\<not> isVerified sample_user"
    by (simp add: sample_user_def)
  have nonempty: "otpArray_of sample_user \<noteq> []"
    by (simp add: sample_otps)
  note main = verifyOTP_expired_vs_invalid [OF _ _ sample_lookup unverified nonempty, of _ 200]
  have a: "verifyOTP 200 (Some ''ann@shop.in'') (Some ''111111'') sample_db =
     \<lparr>reply = expired_reply, store = sample_db, effects = []\<rparr>"
    using main [of "''111111''"] by (simp add: sample_otps)
  have b: "verifyOTP 200 (Some ''ann@shop.in'') (Some ''333333'') sample_db =
     \<lparr>reply = invalid_reply, store = sample_db, effects = []\<rparr>"
    using main [of "''333333''"] by (simp add: sample_otps)
  have valid: "\<exists>e\<in>set (otpArray_of sample_user). otp e = ''222222'' \<and> 200 < expiresAt e"
    by (simp add: sample_otps)
  have ne: "''ann@shop.in'' \<noteq> []" "''222222'' \<noteq> []"
    by simp_all
  have c: "reply (verifyOTP 200 (Some ''ann@shop.in'') (Some ''222222'') sample_db) =
     verified_reply (markVerified sample_user) ''user''"
    using main [OF ne] valid by blast
  have d: "status (reply (verifyOTP 200 (Some ''ann@shop.in'') (Some ''222222'') sample_db)) = 200"
    using main [OF ne] valid by blast
  have e: "map_of (body (reply (verifyOTP 200 (Some ''ann@shop.in'') (Some ''222222'') sample_db))) ''success'' =
       Some (JBool True)"
    using main [OF ne] valid by blast
  have "map_of (body (reply (verifyOTP 200 (Some ''ann@shop.in'') (Some ''222222'') sample_db))) ''data'' =
       Some (JObj [(''id'', JStr (acc_id sample_user)), (''email'', JStr (email sample_user)),
                   (''name'', JStr (name sample_user)), (''isVerified'', JBool True),
                   (''role'', JStr ''user'')])"
    using main [OF ne] valid by blast
  then have f: "map_of (body (reply (verifyOTP 200 (Some ''ann@shop.in'') (Some ''222222'') sample_db))) ''data'' =
       Some (JObj [(''id'', JStr ''u1''), (''email'', JStr ''ann@shop.in''), (''name'', JStr ''Ann''),
                   (''isVerified'', JBool True), (''role'', JStr ''user'')])"
    by (simp add: sample_user_def)
  from a b c d e f show ?thesis by blast
qed

section \<open>Properties of resendOTP\<close>

lemma slice_last4_append: "slice_last4 xs @ [e] = take_last 5 (xs @ [e])"
  by (simp add: slice_last4_def take_last_def)

lemma take_last_length: "length (take_last n xs) \<le> n"
  by (simp add: take_last_def)

lemma take_last_last: "xs \<noteq> [] \<Longrightarrow> 0 < n \<Longrightarrow> last (take_last n xs) = last xs"
  by (simp add: take_last_def)

lemma take_last_idem: "take_last n (take_last n xs @ ys) = take_last n (xs @ ys)"
proof (cases "n \<le> length xs")
  case True
  then have "length xs + length ys - (length xs - n + n) + (length xs - n) = length xs + length ys - n"
    by simp
  with True show ?thesis
    by (simp add: take_last_def)
next
  case False
  then show ?thesis
    by (simp add: take_last_def)
qed

lemma setOTPs_email: "email (a\<lparr>emailOTPs := x\<rparr>) = email a"
  by simp

lemma resendOTP_verified:
  assumes "em \<noteq> []" and "findInBoth d em = Some (user, userType)" and "isVerified user"
  shows "resendOTP new_otp clock clock' (Some em) d =
           \<lparr>reply = already_verified_reply, store = d, effects = []\<rparr>"
  using assms by (simp add: resendOTP_def)

lemma resendOTP_unverified:
  assumes "em \<noteq> []" and found: "findInBoth d em = Some (user, userType)" and "\<not> isVerified user"
  shows "findInBoth (store (resendOTP new_otp clock clock' (Some em) d)) em =
           Some (user\<lparr>emailOTPs := Some (updatedOTPs user new_otp clock clock')\<rparr>, userType)"
proof (rule findInBoth_after_update [OF found,
      where f = "\<lambda>a. a\<lparr>emailOTPs := Some (updatedOTPs user new_otp clock clock')\<rparr>"])
  show "email (a\<lparr>emailOTPs := Some (updatedOTPs user new_otp clock clock')\<rparr>) = email a" for a
    by simp
next
  assume "userType = ''admin''"
  with assms show "users (store (resendOTP new_otp clock clock' (Some em) d)) = users d \<and>
      admins (store (resendOTP new_otp clock clock' (Some em) d)) =
        update_id (admins d) (acc_id user) (\<lambda>a. a\<lparr>emailOTPs := Some (updatedOTPs user new_otp clock clock')\<rparr>)"
    by (simp add: resendOTP_def Let_def)
next
  assume "userType \<noteq> ''admin''"
  with assms show "users (store (resendOTP new_otp clock clock' (Some em) d)) =
        update_id (users d) (acc_id user) (\<lambda>a. a\<lparr>emailOTPs := Some (updatedOTPs user new_otp clock clock')\<rparr>) \<and>
      admins (store (resendOTP new_otp clock clock' (Some em) d)) = admins d"
    by (simp add: resendOTP_def Let_def)
qed

lemma resend_all_verified:
  assumes "em \<noteq> []" and "findInBoth d em = Some (user, userType)" and "isVerified user"
  shows "resend_all reqs em d = d"
proof (induction reqs)
  case Nil
  show ?case by simp
next
  case (Cons r reqs)
  obtain new_otp clock clock' where r: "r = (new_otp, clock, clock')"
    by (cases r) auto
  with Cons show ?case
    by (simp add: resendOTP_verified [OF assms])
qed

lemma resend_all_unverified:
  assumes "em \<noteq> []"
  shows "findInBoth d em = Some (user, userType) \<Longrightarrow> \<not> isVerified user \<Longrightarrow> reqs \<noteq> [] \<Longrightarrow>
         \<exists>user'. findInBoth (resend_all reqs em d) em = Some (user', userType) \<and> \<not> isVerified user' \<and>
                 otpArray_of user' = take_last 5 (otpArray_of user @ map entry_of reqs)"
proof (induction reqs arbitrary: d user)
  case Nil
  then show ?case by simp
next
  case (Cons r reqs)
  obtain new_otp clock clock' where r: "r = (new_otp, clock, clock')"
    by (cases r) auto
  let ?d1 = "store (resendOTP new_otp clock clock' (Some em) d)"
  let ?u1 = "user\<lparr>emailOTPs := Some (updatedOTPs user new_otp clock clock')\<rparr>"
  have found1: "findInBoth ?d1 em = Some (?u1, userType)"
    by (rule resendOTP_unverified [OF assms Cons.prems(1,2)])
  have unv1: "\<not> isVerified ?u1"
    using Cons.prems(2) by simp
  have arr1: "otpArray_of ?u1 = take_last 5 (otpArray_of user @ [entry_of r])"
    by (simp add: otpArray_of_def updatedOTPs_def slice_last4_append entry_of_def r)
  show ?case
  proof (cases "reqs = []")
    case True
    with found1 unv1 arr1 show ?thesis
      by (simp add: r)
  next
    case False
    from Cons.IH [OF found1 unv1 False] obtain user' where
      u': "findInBoth (resend_all reqs em ?d1) em = Some (user', userType)" "\<not> isVerified user'"
        "otpArray_of user' = take_last 5 (otpArray_of ?u1 @ map entry_of reqs)"
      by blast
    have "otpArray_of user' = take_last 5 (otpArray_of user @ map entry_of (r # reqs))"
      using u'(3) by (simp only: arr1 take_last_idem) simp
    with u'(1,2) show ?thesis
      by (auto simp: r)
  qed
qed

lemma new_entry_fields:
  "otp (new_entry new_otp clock clock') = new_otp"
  "expiresAt (new_entry new_otp clock clock') = clock + 600000"
  "createdAt (new_entry new_otp clock clock') = clock'"
  by (simp_all add: new_entry_def)

lemma entry_of_fields:
  "otp (entry_of r) = fst r"
  "expiresAt (entry_of r) = fst (snd r) + 600000"
  "createdAt (entry_of r) = snd (snd r)"
  by (cases r; simp add: entry_of_def new_entry_fields)+

lemma map_take_last: "map f (take_last n xs) = take_last n (map f xs)"
  by (simp add: take_last_def drop_map)

text \<open>
  C3. For an unverified account, a resend stores the last four entries of the prior list
  followed by a new entry that carries the code just generated, expires ten minutes after
  the clock reading and is stamped with the creation time; so the stored list has at most
  five entries and the code of its last entry is the code just generated. After any
  number N > 0 of resends the stored list is the last five entries of the prior list
  followed by the N generated entries, again at most five, and the code of its last entry
  is the code generated by the last resend. For a verified account, a resend answers
  \<open>alreadyVerified: true\<close> (status 200, \<open>success: true\<close>) and changes nothing, however
  often it is repeated.
\<close>

theorem resendOTP_bounded_history:
  assumes "em \<noteq> []" and "findInBoth d em = Some (user, userType)"
  shows "(\<not> isVerified user \<longrightarrow>
            (\<exists>user'. findInBoth (store (resendOTP new_otp clock clock' (Some em) d)) em = Some (user', userType)
               \<and> otpArray_of user' = slice_last4 (otpArray_of user) @ [new_entry new_otp clock clock']
               \<and> length (slice_last4 (otpArray_of user)) \<le> 4
               \<and> length (otpArray_of user') \<le> 5
               \<and> last (otpArray_of user') = new_entry new_otp clock clock'
               \<and> otp (last (otpArray_of user')) = new_otp
               \<and> expiresAt (last (otpArray_of user')) = clock + 600000
               \<and> createdAt (last (otpArray_of user')) = clock'
               \<and> map otp (otpArray_of user') = map otp (slice_last4 (otpArray_of user)) @ [new_otp])
          \<and> (\<forall>reqs. reqs \<noteq> [] \<longrightarrow>
               (\<exists>user'. findInBoth (resend_all reqs em d) em = Some (user', userType)
                  \<and> otpArray_of user' = take_last 5 (otpArray_of user @ map entry_of reqs)
                  \<and> length (otpArray_of user') \<le> 5
                  \<and> last (otpArray_of user') = entry_of (last reqs)
                  \<and> otp (last (otpArray_of user')) = fst (last reqs)
                  \<and> expiresAt (last (otpArray_of user')) = fst (snd (last reqs)) + 600000
                  \<and> map otp (otpArray_of user') = take_last 5 (map otp (otpArray_of user) @ map fst reqs))))
       \<and> (isVerified user \<longrightarrow>
            resendOTP new_otp clock clock' (Some em) d =
              \<lparr>reply = already_verified_reply, store = d, effects = []\<rparr>
          \<and> (\<forall>reqs. resend_all reqs em d = d))
       \<and> status already_verified_reply = 200
       \<and> map_of (body already_verified_reply) ''success'' = Some (JBool True)
       \<and> map_of (body already_verified_reply) ''alreadyVerified'' = Some (JBool True)"
proof -
  have one: "\<exists>user'. findInBoth (store (resendOTP new_otp clock clock' (Some em) d)) em = Some (user', userType)
               \<and> otpArray_of user' = slice_last4 (otpArray_of user) @ [new_entry new_otp clock clock']
               \<and> length (slice_last4 (otpArray_of user)) \<le> 4
               \<and> length (otpArray_of user') \<le> 5
               \<and> last (otpArray_of user') = new_entry new_otp clock clock'
               \<and> otp (last (otpArray_of user')) = new_otp
               \<and> expiresAt (last (otpArray_of user')) = clock + 600000
               \<and> createdAt (last (otpArray_of user')) = clock'
               \<and> map otp (otpArray_of user') = map otp (slice_last4 (otpArray_of user)) @ [new_otp]"
    if unv: "\<not> isVerified user"
  proof -
    let ?u1 = "user\<lparr>emailOTPs := Some (updatedOTPs user new_otp clock clock')\<rparr>"
    have found1: "findInBoth (store (resendOTP new_otp clock clock' (Some em) d)) em = Some (?u1, userType)"
      by (rule resendOTP_unverified [OF assms unv])
    have arr1: "otpArray_of ?u1 = slice_last4 (otpArray_of user) @ [new_entry new_otp clock clock']"
      by (simp add: otpArray_of_def updatedOTPs_def)
    have len4: "length (slice_last4 (otpArray_of user)) \<le> 4"
      by (simp add: slice_last4_def)
    from found1 arr1 len4 show ?thesis
      by (intro exI [of _ ?u1]) (simp add: new_entry_fields)
  qed
  have many: "\<exists>user'. findInBoth (resend_all reqs em d) em = Some (user', userType)
                  \<and> otpArray_of user' = take_last 5 (otpArray_of user @ map entry_of reqs)
                  \<and> length (otpArray_of user') \<le> 5
                  \<and> last (otpArray_of user') = entry_of (last reqs)
                  \<and> otp (last (otpArray_of user')) = fst (last reqs)
                  \<and> expiresAt (last (otpArray_of user')) = fst (snd (last reqs)) + 600000
                  \<and> map otp (otpArray_of user') = take_last 5 (map otp (otpArray_of user) @ map fst reqs)"
    if unv: "\<not> isVerified user" and ne: "reqs \<noteq> []" for reqs
  proof -
    from resend_all_unverified [OF assms(1) assms(2) unv ne] obtain user' where
      u': "findInBoth (resend_all reqs em d) em = Some (user', userType)"
        "otpArray_of user' = take_last 5 (otpArray_of user @ map entry_of reqs)"
      by blast
    have l: "last (take_last 5 (otpArray_of user @ map entry_of reqs)) = entry_of (last reqs)"
      using ne by (simp add: take_last_last last_map)
    have m: "map otp (take_last 5 (otpArray_of user @ map entry_of reqs)) =
        take_last 5 (map otp (otpArray_of user) @ map fst reqs)"
      by (simp add: map_take_last entry_of_fields comp_def)
    from u' l m show ?thesis
      by (intro exI [of _ user']) (simp add: take_last_length entry_of_fields)
  qed
  have ver: "resendOTP new_otp clock clock' (Some em) d =
      \<lparr>reply = already_verified_reply, store = d, effects = []\<rparr>" if "isVerified user"
    by (rule resendOTP_verified [OF assms that])
  have ver_all: "resend_all reqs em d = d" if "isVerified user" for reqs
    by (rule resend_all_verified [OF assms that])
  have payload: "status already_verified_reply = 200"
    "map_of (body already_verified_reply) ''success'' = Some (JBool True)"
    "map_of (body already_verified_reply) ''alreadyVerified'' = Some (JBool True)"
    by (simp_all add: already_verified_reply_def)
  from one many ver ver_all payload show ?thesis
    by blast
qed

lemma sample_verified_lookup:
  "findInBoth sample_verified_db ''ann@shop.in'' = Some (markVerified sample_user, ''user'')"
  by (simp add: findInBoth_def findUnique_email_def sample_verified_db_def sample_db_def
      markVerified_def sample_user_def)

theorem resendOTP_bounded_history_witness:
  "(\<exists>user'. findInBoth (resend_all [(''300001'', 1000, 1001), (''300002'', 2000, 2001),
              (''300003'', 3000, 3001), (''300004'', 4000, 4001), (''300005'', 5000, 5001)]
              ''ann@shop.in'' sample_db) ''ann@shop.in'' = Some (user', ''user'')
      \<and> length (otpArray_of user') \<le> 5
      \<and> last (otpArray_of user') = new_entry ''300005'' 5000 5001
      \<and> otp (last (otpArray_of user')) = ''300005''
      \<and> map otp (otpArray_of user') = [''300001'', ''300002'', ''300003'', ''300004'', ''300005''])
   \<and> (\<exists>user'. findInBoth (store (resendOTP ''300001'' 1000 1001 (Some ''ann@shop.in'') sample_db))
          ''ann@shop.in'' = Some (user', ''user'')
      \<and> map otp (otpArray_of user') = [''111111'', ''222222'', ''300001'']
      \<and> expiresAt (last (otpArray_of user')) = 601000)
   \<and> resendOTP ''300001'' 1000 1001 (Some ''ann@shop.in'') sample_verified_db =
       \<lparr>reply = already_verified_reply, store = sample_verified_db, effects = []\<rparr>"
proof -
  have unverified: "\<not> isVerified sample_user"
    by (simp add: sample_user_def)
  have verified: "isVerified (markVerified sample_user)"
    by (simp add: markVerified_def)
  have ne: "''ann@shop.in'' \<noteq> []"
    by simp
  let ?reqs = "[(''300001'', 1000, 1001), (''300002'', 2000, 2001),
      (''300003'', 3000, 3001), (''300004'', 4000, 4001), (''300005'', 5000::int, 5001::int)]"
  note main = resendOTP_bounded_history [OF ne sample_lookup, of "''300001''" 1000 1001]
  from main unverified
  have "\<forall>reqs. reqs \<noteq> [] \<longrightarrow>
      (\<exists>user'. findInBoth (resend_all reqs ''ann@shop.in'' sample_db) ''ann@shop.in'' = Some (user', ''user'')
         \<and> otpArray_of user' = take_last 5 (otpArray_of sample_user @ map entry_of reqs)
         \<and> length (otpArray_of user') \<le> 5
         \<and> last (otpArray_of user') = entry_of (last reqs)
         \<and> otp (last (otpArray_of user')) = fst (last reqs)
         \<and> expiresAt (last (otpArray_of user')) = fst (snd (last reqs)) + 600000
         \<and> map otp (otpArray_of user') = take_last 5 (map otp (otpArray_of sample_user) @ map fst reqs))"
    by blast
  from this [rule_format, of ?reqs]
  obtain u5 where u5: "findInBoth (resend_all ?reqs ''ann@shop.in'' sample_db) ''ann@shop.in'' = Some (u5, ''user'')"
      "length (otpArray_of u5) \<le> 5"
      "last (otpArray_of u5) = entry_of (last ?reqs)"
      "otp (last (otpArray_of u5)) = fst (last ?reqs)"
      "map otp (otpArray_of u5) = take_last 5 (map otp (otpArray_of sample_user) @ map fst ?reqs)"
    by auto
  have a: "\<exists>user'. findInBoth (resend_all ?reqs ''ann@shop.in'' sample_db) ''ann@shop.in'' = Some (user', ''user'')
      \<and> length (otpArray_of user') \<le> 5
      \<and> last (otpArray_of user') = new_entry ''300005'' 5000 5001
      \<and> otp (last (otpArray_of user')) = ''300005''
      \<and> map otp (otpArray_of user') = [''300001'', ''300002'', ''300003'', ''300004'', ''300005'']"
    using u5 by (intro exI [of _ u5]) (simp add: entry_of_def sample_otps take_last_def)
  from main unverified
  obtain u1 where u1: "findInBoth (store (resendOTP ''300001'' 1000 1001 (Some ''ann@shop.in'') sample_db))
        ''ann@shop.in'' = Some (u1, ''user'')"
      "expiresAt (last (otpArray_of u1)) = 1000 + 600000"
      "map otp (otpArray_of u1) = map otp (slice_last4 (otpArray_of sample_user)) @ [''300001'']"
    by blast
  have b: "\<exists>user'. findInBoth (store (resendOTP ''300001'' 1000 1001 (Some ''ann@shop.in'') sample_db))
          ''ann@shop.in'' = Some (user', ''user'')
      \<and> map otp (otpArray_of user') = [''111111'', ''222222'', ''300001'']
      \<and> expiresAt (last (otpArray_of user')) = 601000"
    using u1 by (intro exI [of _ u1]) (simp add: sample_otps slice_last4_def)
  from resendOTP_bounded_history [OF ne sample_verified_lookup, of "''300001''" 1000 1001] verified
  have c: "resendOTP ''300001'' 1000 1001 (Some ''ann@shop.in'') sample_verified_db =
       \<lparr>reply = already_verified_reply, store = sample_verified_db, effects = []\<rparr>"
    by blast
  from a b c show ?thesis by blast
qed

section \<open>Properties of mobileLogin\<close>

lemma mobileLogin_not_found:
  assumes "ident \<noteq> []" and "pw \<noteq> []" and "findLogin d ident = None"
  shows "mobileLogin env (Some ident) (Some pw) tok d =
           \<lparr>reply = login_not_found_reply, store = d, effects = []\<rparr>"
  using assms by (simp add: mobileLogin_def)

lemma mobileLogin_wrong_password:
  assumes "ident \<noteq> []" and "pw \<noteq> []" and "findLogin d ident = Some (user, userType)"
    and "isActive user" and "isVerified user" and "password user = Some hash" and "hash \<noteq> []"
    and "\<not> bcrypt_compare env pw hash"
  shows "mobileLogin env (Some ident) (Some pw) tok d =
           \<lparr>reply = wrong_password_reply, store = d, effects = []\<rparr>"
  using assms by (simp add: mobileLogin_def)

text \<open>
  C4. The claim is that a login for an identifier that matches no account and a login
  for an existing, active, verified account with a wrong password return the same error
  message. Evaluated on the sample store, the first returns "Invalid email/phone number
  or password" and the second "Invalid email or password": same status, same shape, but
  two different messages.
\<close>

theorem mobileLogin_messages_differ:
  "mobileLogin sample_login_env (Some ''nobody@shop.in'') (Some ''secret'') None sample_verified_db =
     \<lparr>reply = login_not_found_reply, store = sample_verified_db, effects = []\<rparr>
   \<and> mobileLogin sample_login_env (Some ''ann@shop.in'') (Some ''wrong'') None sample_verified_db =
     \<lparr>reply = wrong_password_reply, store = sample_verified_db, effects = []\<rparr>
   \<and> map_of (body login_not_found_reply) ''error'' = Some (JStr ''Invalid email/phone number or password'')
   \<and> map_of (body wrong_password_reply) ''error'' = Some (JStr ''Invalid email or password'')
   \<and> map_of (body login_not_found_reply) ''error'' \<noteq> map_of (body wrong_password_reply) ''error''
   \<and> status login_not_found_reply = status wrong_password_reply"
proof -
  have e1: "rx_search loginEmailRegex ''nobody@shop.in''"
    by (simp add: rx_search_def loginEmailRegex_def rx_plus_def is_space_def Let_def)
  have e2: "rx_search loginEmailRegex ''ann@shop.in''"
    by (simp add: rx_search_def loginEmailRegex_def rx_plus_def is_space_def Let_def)
  have l1: "findLogin sample_verified_db ''nobody@shop.in'' = None"
    by (simp add: findLogin_def e1 findUnique_email_def sample_verified_db_def sample_db_def
        markVerified_def sample_user_def)
  have l2: "findLogin sample_verified_db ''ann@shop.in'' = Some (markVerified sample_user, ''user'')"
    by (simp add: findLogin_def e2 findUnique_email_def sample_verified_db_def sample_db_def
        markVerified_def sample_user_def)
  have a: "mobileLogin sample_login_env (Some ''nobody@shop.in'') (Some ''secret'') None sample_verified_db =
     \<lparr>reply = login_not_found_reply, store = sample_verified_db, effects = []\<rparr>"
    by (rule mobileLogin_not_found [OF _ _ l1]) simp_all
  have b: "mobileLogin sample_login_env (Some ''ann@shop.in'') (Some ''wrong'') None sample_verified_db =
     \<lparr>reply = wrong_password_reply, store = sample_verified_db, effects = []\<rparr>"
    by (rule mobileLogin_wrong_password [OF _ _ l2, where hash = "''h:secret''"])
       (simp_all add: markVerified_def sample_user_def sample_login_env_def)
  have c: "map_of (body login_not_found_reply) ''error'' = Some (JStr ''Invalid email/phone number or password'')"
    "map_of (body wrong_password_reply) ''error'' = Some (JStr ''Invalid email or password'')"
    "status login_not_found_reply = status wrong_password_reply"
    by (simp_all add: login_not_found_reply_def wrong_password_reply_def)
  from a b c show ?thesis by simp
qed

section \<open>Properties of mobileRegister\<close>











section \<open>A verified account stays verified\<close>

lemma verified_at_update_users:
  assumes v: "verified_at d em"
    and keeps: "\<And>a. email (f a) = email a"
    and mono: "\<And>a. isVerified a \<Longrightarrow> isVerified (f a)"
    and upd: "users d' = update_id (users d) i f" "admins d' = admins d"
  shows "verified_at d' em"
  using v upd mono
  by (auto simp: verified_at_def findInBoth_def find_update_id [OF keeps] split: option.splits)

lemma verified_at_update_admins:
  assumes v: "verified_at d em"
    and keeps: "\<And>a. email (f a) = email a"
    and mono: "\<And>a. isVerified a \<Longrightarrow> isVerified (f a)"
    and upd: "users d' = users d" "admins d' = update_id (admins d) i f"
  shows "verified_at d' em"
  using v upd mono
  by (auto simp: verified_at_def findInBoth_def find_update_id [OF keeps] split: option.splits)

lemma find_snoc_other: "\<not> P u \<Longrightarrow> find P (xs @ [u]) = find P xs"
  by (induction xs) auto

lemma verified_at_append_users:
  assumes v: "verified_at d em" and other: "email u \<noteq> em"
    and app: "users d' = users d @ [u]" "admins d' = admins d"
  shows "verified_at d' em"
  using v app other
  by (auto simp: verified_at_def findInBoth_def findUnique_email_def find_snoc_other split: option.splits)

lemma verified_at_append_admins:
  assumes v: "verified_at d em" and other: "email u \<noteq> em"
    and app: "users d' = users d" "admins d' = admins d @ [u]"
  shows "verified_at d' em"
  using v app other
  by (auto simp: verified_at_def findInBoth_def findUnique_email_def find_snoc_other split: option.splits)

lemma verifyOTP_store_cases:
  "store (verifyOTP now e c d) = d \<or>
   (users (store (verifyOTP now e c d)) =
        update_id (users d) (acc_id (fst (the (findInBoth d (the e))))) markVerified \<and>
    admins (store (verifyOTP now e c d)) = admins d) \<or>
   (users (store (verifyOTP now e c d)) = users d \<and>
    admins (store (verifyOTP now e c d)) =
        update_id (admins d) (acc_id (fst (the (findInBoth d (the e))))) markVerified)"
  by (simp add: verifyOTP_def Let_def split: option.splits prod.splits)

lemma verifyOTP_keeps:
  assumes "verified_at d em"
  shows "verified_at (store (verifyOTP now e c d)) em"
proof -
  have m: "isVerified a \<Longrightarrow> isVerified (markVerified a)" for a
    by (simp add: markVerified_def)
  from verifyOTP_store_cases [of now e c d] show ?thesis
  proof (elim disjE conjE)
    assume "store (verifyOTP now e c d) = d"
    with assms show ?thesis by simp
  next
    assume "users (store (verifyOTP now e c d)) =
        update_id (users d) (acc_id (fst (the (findInBoth d (the e))))) markVerified"
      and "admins (store (verifyOTP now e c d)) = admins d"
    then show ?thesis
      using verified_at_update_users [OF assms markVerified_email m] by blast
  next
    assume "users (store (verifyOTP now e c d)) = users d"
      and "admins (store (verifyOTP now e c d)) =
        update_id (admins d) (acc_id (fst (the (findInBoth d (the e))))) markVerified"
    then show ?thesis
      using verified_at_update_admins [OF assms markVerified_email m] by blast
  qed
qed

lemma resendOTP_store_cases:
  "store (resendOTP new_otp clock clock' e d) = d \<or>
   (users (store (resendOTP new_otp clock clock' e d)) =
        update_id (users d) (acc_id (fst (the (findInBoth d (the e)))))
          (\<lambda>u. u\<lparr>emailOTPs := Some (updatedOTPs (fst (the (findInBoth d (the e)))) new_otp clock clock')\<rparr>) \<and>
    admins (store (resendOTP new_otp clock clock' e d)) = admins d) \<or>
   (users (store (resendOTP new_otp clock clock' e d)) = users d \<and>
    admins (store (resendOTP new_otp clock clock' e d)) =
        update_id (admins d) (acc_id (fst (the (findInBoth d (the e)))))
          (\<lambda>u. u\<lparr>emailOTPs := Some (updatedOTPs (fst (the (findInBoth d (the e)))) new_otp clock clock')\<rparr>))"
  by (simp add: resendOTP_def Let_def split: option.splits prod.splits)

lemma resendOTP_keeps:
  assumes "verified_at d em"
  shows "verified_at (store (resendOTP new_otp clock clock' e d)) em"
proof -
  let ?f = "\<lambda>u. u\<lparr>emailOTPs := Some (updatedOTPs (fst (the (findInBoth d (the e)))) new_otp clock clock')\<rparr>"
  have k: "email (?f a) = email a" for a :: account
    by simp
  have m: "isVerified a \<Longrightarrow> isVerified (?f a)" for a :: account
    by simp
  from resendOTP_store_cases [of new_otp clock clock' e d] show ?thesis
  proof (elim disjE conjE)
    assume "store (resendOTP new_otp clock clock' e d) = d"
    with assms show ?thesis by simp
  next
    assume "users (store (resendOTP new_otp clock clock' e d)) =
        update_id (users d) (acc_id (fst (the (findInBoth d (the e))))) ?f"
      and "admins (store (resendOTP new_otp clock clock' e d)) = admins d"
    then show ?thesis
      using verified_at_update_users [OF assms k m] by blast
  next
    assume "users (store (resendOTP new_otp clock clock' e d)) = users d"
      and "admins (store (resendOTP new_otp clock clock' e d)) =
        update_id (admins d) (acc_id (fst (the (findInBoth d (the e))))) ?f"
    then show ?thesis
      using verified_at_update_admins [OF assms k m] by blast
  qed
qed

lemma mobileLogin_store_cases:
  "store (mobileLogin env e p tok d) = d \<or>
   (users (store (mobileLogin env e p tok d)) =
        update_id (users d) (acc_id (fst (the (findLogin d (the e)))))
          (loginUpdate env tok (fst (the (findLogin d (the e))))) \<and>
    admins (store (mobileLogin env e p tok d)) = admins d) \<or>
   (users (store (mobileLogin env e p tok d)) = users d \<and>
    admins (store (mobileLogin env e p tok d)) =
        update_id (admins d) (acc_id (fst (the (findLogin d (the e)))))
          (loginUpdate env tok (fst (the (findLogin d (the e))))))"
  by (simp add: mobileLogin_def Let_def split: option.splits prod.splits)

lemma loginUpdate_email: "email (loginUpdate env tok u a) = email a"
  by (simp add: loginUpdate_def)

lemma loginUpdate_verified: "isVerified a \<Longrightarrow> isVerified (loginUpdate env tok u a)"
  by (simp add: loginUpdate_def)

lemma mobileLogin_keeps:
  assumes "verified_at d em"
  shows "verified_at (store (mobileLogin env e p tok d)) em"
proof -
  let ?f = "loginUpdate env tok (fst (the (findLogin d (the e))))"
  have k: "email (?f a) = email a" for a
    by (rule loginUpdate_email)
  have m: "isVerified a \<Longrightarrow> isVerified (?f a)" for a
    by (rule loginUpdate_verified)
  note usr = verified_at_update_users [OF assms, where f = ?f, OF k m]
  note adm = verified_at_update_admins [OF assms, where f = ?f, OF k m]
  from mobileLogin_store_cases [of env e p tok d] show ?thesis
  proof (elim disjE conjE)
    assume "store (mobileLogin env e p tok d) = d"
    with assms show ?thesis by simp
  next
    assume "users (store (mobileLogin env e p tok d)) =
        update_id (users d) (acc_id (fst (the (findLogin d (the e))))) ?f"
      and "admins (store (mobileLogin env e p tok d)) = admins d"
    then show ?thesis
      using usr by blast
  next
    assume "users (store (mobileLogin env e p tok d)) = users d"
      and "admins (store (mobileLogin env e p tok d)) =
        update_id (admins d) (acc_id (fst (the (findLogin d (the e))))) ?f"
    then show ?thesis
      using adm by blast
  qed
qed

lemma mobileRegister_store_cases:
  "store (mobileRegister env e p n ph d) = d \<or>
   (findUnique_email (users d) (the e) = None \<and> findUnique_email (admins d) (the e) = None \<and>
    ((users (store (mobileRegister env e p n ph d)) = users d @ [userData env (the e) (the p) (the n) (the ph)] \<and>
      admins (store (mobileRegister env e p n ph d)) = admins d) \<or>
     (users (store (mobileRegister env e p n ph d)) = users d \<and>
      admins (store (mobileRegister env e p n ph d)) = admins d @ [userData env (the e) (the p) (the n) (the ph)])))"
  by (cases "isAdminEmail env (the e)") (simp_all add: mobileRegister_def Let_def split: prod.splits)

lemma userData_email: "email (userData env em pw nm phone) = em"
  by (simp add: userData_def)

lemma mobileRegister_keeps:
  assumes "verified_at d em"
  shows "verified_at (store (mobileRegister env e p n ph d)) em"
proof -
  let ?u = "userData env (the e) (the p) (the n) (the ph)"
  have other: "email ?u \<noteq> em"
    if "findUnique_email (users d) (the e) = None" "findUnique_email (admins d) (the e) = None"
  proof -
    from that have "\<not> verified_at d (the e)"
      by (simp add: verified_at_def findInBoth_def)
    with assms have "the e \<noteq> em" by auto
    then show ?thesis by (simp add: userData_email)
  qed
  from mobileRegister_store_cases [of env e p n ph d] show ?thesis
  proof (elim disjE conjE)
    assume "store (mobileRegister env e p n ph d) = d"
    with assms show ?thesis by simp
  next
    assume n: "findUnique_email (users d) (the e) = None" "findUnique_email (admins d) (the e) = None"
      and "users (store (mobileRegister env e p n ph d)) = users d @ [?u]"
      and "admins (store (mobileRegister env e p n ph d)) = admins d"
    then show ?thesis
      using verified_at_append_users [OF assms other [OF n]] by blast
  next
    assume n: "findUnique_email (users d) (the e) = None" "findUnique_email (admins d) (the e) = None"
      and "users (store (mobileRegister env e p n ph d)) = users d"
      and "admins (store (mobileRegister env e p n ph d)) = admins d @ [?u]"
    then show ?thesis
      using verified_at_append_admins [OF assms other [OF n]] by blast
  qed
qed

lemma handle_keeps: "verified_at d em \<Longrightarrow> verified_at (store (handle r d)) em"
  by (cases r) (simp_all add: verifyOTP_keeps resendOTP_keeps mobileLogin_keeps mobileRegister_keeps)

lemma serve_keeps: "verified_at d em \<Longrightarrow> verified_at (serve rs d) em"
  by (induction rs arbitrary: d) (simp_all add: handle_keeps)

lemma verifyOTP_at_verified:
  assumes "em \<noteq> []" and "code \<noteq> []" and "verified_at d em"
  shows "verifyOTP now (Some em) (Some code) d = \<lparr>reply = already_verified_reply, store = d, effects = []\<rparr>"
  using assms by (auto simp: verified_at_def verifyOTP_def split: option.splits)

text \<open>
  C2. When a verify call succeeds with a correct, unexpired code, the account found by
  the address afterwards has its verified flag set and its OTP list empty, and every
  later verify call for that address, with the same code or any other, at any time,
  returns the idempotent "already verified" success payload (\<open>alreadyVerified: true\<close>)
  and leaves the store as it is: directly afterwards, and also after any sequence of
  register, verify, resend and login requests served in between.
\<close>

theorem verifyOTP_success_then_idempotent:
  assumes "em \<noteq> []" and "code \<noteq> []"
    and "findInBoth d em = Some (user, userType)"
    and "\<not> isVerified user"
    and "\<exists>e\<in>set (otpArray_of user). otp e = code \<and> now < expiresAt e"
  shows "reply (verifyOTP now (Some em) (Some code) d) = verified_reply (markVerified user) userType
       \<and> (\<exists>user'. findInBoth (store (verifyOTP now (Some em) (Some code) d)) em = Some (user', userType)
             \<and> isVerified user' \<and> emailOTPs user' = Some [] \<and> otpArray_of user' = [])
       \<and> (\<forall>now' code'. code' \<noteq> [] \<longrightarrow>
             verifyOTP now' (Some em) (Some code') (store (verifyOTP now (Some em) (Some code) d)) =
               \<lparr>reply = already_verified_reply, store = store (verifyOTP now (Some em) (Some code) d),
                effects = []\<rparr>)
       \<and> (\<forall>reqs now' code'. code' \<noteq> [] \<longrightarrow>
             verifyOTP now' (Some em) (Some code') (serve reqs (store (verifyOTP now (Some em) (Some code) d))) =
               \<lparr>reply = already_verified_reply,
                store = serve reqs (store (verifyOTP now (Some em) (Some code) d)), effects = []\<rparr>)
       \<and> (''alreadyVerified'', JBool True) \<in> set (body already_verified_reply)
       \<and> (''success'', JBool True) \<in> set (body already_verified_reply)"
proof -
  let ?d' = "store (verifyOTP now (Some em) (Some code) d)"
  from assms(5) have ne: "otpArray_of user \<noteq> []" by auto
  have r: "reply (verifyOTP now (Some em) (Some code) d) = verified_reply (markVerified user) userType"
    using verifyOTP_accepts [OF assms(1-4) ne] assms(5) by blast
  have found': "findInBoth ?d' em = Some (markVerified user, userType)"
    by (rule verifyOTP_success_store [OF assms])
  have v: "isVerified (markVerified user)" "emailOTPs (markVerified user) = Some []"
      "otpArray_of (markVerified user) = []"
    by (simp_all add: markVerified_def otpArray_of_def)
  have again: "verifyOTP now' (Some em) (Some code') ?d' =
      \<lparr>reply = already_verified_reply, store = ?d', effects = []\<rparr>" if "code' \<noteq> []" for now' code'
    by (rule verifyOTP_already_verified [OF assms(1) that found' v(1)])
  have at: "verified_at ?d' em"
    by (simp add: verified_at_def found' v(1))
  have later: "verifyOTP now' (Some em) (Some code') (serve reqs ?d') =
      \<lparr>reply = already_verified_reply, store = serve reqs ?d', effects = []\<rparr>"
    if "code' \<noteq> []" for reqs now' code'
    by (rule verifyOTP_at_verified [OF assms(1) that serve_keeps [OF at]])
  have flags: "(''alreadyVerified'', JBool True) \<in> set (body already_verified_reply)"
      "(''success'', JBool True) \<in> set (body already_verified_reply)"
    by (simp_all add: already_verified_reply_def)
  from r found' v again later flags show ?thesis by blast
qed

theorem verifyOTP_success_then_idempotent_witness:
  "reply (verifyOTP 200 (Some ''ann@shop.in'') (Some ''222222'') sample_db) =
     verified_reply (markVerified sample_user) ''user''
   \<and> (\<exists>user'. findInBoth (store (verifyOTP 200 (Some ''ann@shop.in'') (Some ''222222'') sample_db))
                  ''ann@shop.in'' = Some (user', ''user'')
         \<and> isVerified user' \<and> emailOTPs user' = Some [])
   \<and> reply (verifyOTP 300 (Some ''ann@shop.in'') (Some ''222222'')
         (store (verifyOTP 200 (Some ''ann@shop.in'') (Some ''222222'') sample_db))) =
       already_verified_reply
   \<and> reply (verifyOTP 900 (Some ''ann@shop.in'') (Some ''999999'')
         (serve [Resend ''300001'' 400 401 (Some ''ann@shop.in''),
                 Login sample_login_env (Some ''ann@shop.in'') (Some ''secret'') None]
            (store (verifyOTP 200 (Some ''ann@shop.in'') (Some ''222222'') sample_db)))) =
       already_verified_reply"
proof -
  have unverified: "\<not> isVerified sample_user"
    by (simp add: sample_user_def)
  have valid: "\<exists>e\<in>set (otpArray_of sample_user). otp e = ''222222'' \<and> 200 < expiresAt e"
    by (simp add: sample_otps)
  have "''ann@shop.in'' \<noteq> []" and "''222222'' \<noteq> []"
    by simp_all
  note main = verifyOTP_success_then_idempotent [OF this sample_lookup unverified valid]
  let ?d' = "store (verifyOTP 200 (Some ''ann@shop.in'') (Some ''222222'') sample_db)"
  from main have a: "reply (verifyOTP 200 (Some ''ann@shop.in'') (Some ''222222'') sample_db) =
     verified_reply (markVerified sample_user) ''user''"
    by blast
  from main have b: "\<exists>user'. findInBoth ?d' ''ann@shop.in'' = Some (user', ''user'')
         \<and> isVerified user' \<and> emailOTPs user' = Some []"
    by blast
  from main have "\<forall>now' code'. code' \<noteq> [] \<longrightarrow>
      verifyOTP now' (Some ''ann@shop.in'') (Some code') ?d' =
        \<lparr>reply = already_verified_reply, store = ?d', effects = []\<rparr>"
    by blast
  then have "verifyOTP 300 (Some ''ann@shop.in'') (Some ''222222'') ?d' =
        \<lparr>reply = already_verified_reply, store = ?d', effects = []\<rparr>"
    by simp
  then have c: "reply (verifyOTP 300 (Some ''ann@shop.in'') (Some ''222222'') ?d') = already_verified_reply"
    by simp
  let ?reqs = "[Resend ''300001'' 400 401 (Some ''ann@shop.in''),
                 Login sample_login_env (Some ''ann@shop.in'') (Some ''secret'') None]"
  from main have "\<forall>reqs now' code'. code' \<noteq> [] \<longrightarrow>
      verifyOTP now' (Some ''ann@shop.in'') (Some code') (serve reqs ?d') =
        \<lparr>reply = already_verified_reply, store = serve reqs ?d', effects = []\<rparr>"
    by blast
  from this [rule_format, of "''999999''" 900 ?reqs]
  have "verifyOTP 900 (Some ''ann@shop.in'') (Some ''999999'') (serve ?reqs ?d') =
        \<lparr>reply = already_verified_reply, store = serve ?reqs ?d', effects = []\<rparr>"
    by (simp only: list.distinct not_False_eq_True)
  then have e: "reply (verifyOTP 900 (Some ''ann@shop.in'') (Some ''999999'') (serve ?reqs ?d')) =
      already_verified_reply"
    by (simp only: outcome.select_convs)
  from a b c e show ?thesis by blast
qed

section \<open>Properties of checkAbandonedCarts\<close>













section \<open>Properties of checkWishlistPriceDrops\<close>

lemma js_lt_Num [simp]: "js_lt (Num a) (Num b) \<longleftrightarrow> a < b"
  by (simp add: js_lt_def toNumber_def)

lemma js_lt_irrefl [simp]: "\<not> js_lt a a"
  by (simp add: js_lt_def split: option.splits)

lemma js_or_same [simp]: "js_or a a = a"
  by (simp add: js_or_def)







text \<open>
  What the step does to the stored wishlist and what \<open>settled\<close> is, by the three ways the
  step can go: nothing to compare, no drop or a failed send, a drop with a successful send.
\<close>

lemma priceDropStep_wishlist_cases:
  "(\<forall>st. wishlist (priceDropStep send products item st) = wishlist st) \<and>
     settled send products item = item \<or>
   (\<exists>pd cu lp v.
      productData item = Some pd \<and> customer_of item = Some cu \<and>
      find (\<lambda>p. product_id p = productId item) products = Some lp \<and>
      variant_at (variants lp) (js_or_num (variantIndex pd) 0) = Some v \<and>
      js_lt (live_variantSellingPrice v) (storedPrice_of pd) \<and>
      (\<forall>st. wishlist (priceDropStep send products item st) =
         wishlistItem_update (wishlist st) (item_id item)
           (pd\<lparr>variantSellingPrice := live_variantSellingPrice v, price := live_variantSellingPrice v\<rparr>)) \<and>
      settled send products item =
        item\<lparr>productData := Some (pd\<lparr>variantSellingPrice := live_variantSellingPrice v,
                                       price := live_variantSellingPrice v\<rparr>)\<rparr>)"
  by (auto simp: priceDropStep_def settled_def Let_def wishlistItem_update_def
      split: option.splits send_result.splits)

lemma settled_id [simp]: "item_id (settled send products item) = item_id item"
  using priceDropStep_wishlist_cases [of send products item] by auto













section \<open>Properties of checkWishlistBackInStock\<close>

lemma backInStockStep_alerts:
  assumes "productData item = Some pd" and "customer_of item = Some cu"
  shows "stockAlerts (backInStockStep send pid V Q item st) =
           stockAlerts st @
           (if itemVariantIndex_of pd = V \<and> previousStock_of pd = 0 \<and> 0 < Q
            then [stockCall pid Q pd cu] else [])"
  using assms by (simp add: backInStockStep_def stockCall_def Let_def)

lemma backInStockStep_updates:
  assumes "productData item = Some pd" and "customer_of item = Some cu"
    and "itemVariantIndex_of pd = V" and "previousStock_of pd = 0" and "0 < Q"
    and "send (stockCall pid Q pd cu) = Sent"
  shows "stock_wishlist (backInStockStep send pid V Q item st) =
           wishlistItem_update (stock_wishlist st) (item_id item) (pd\<lparr>variantStockQuantity := Num Q\<rparr>)"
  using assms by (simp add: backInStockStep_def stockCall_def Let_def)

lemma backInStockStep_absent:
  assumes "productData item = None \<or> customer_of item = None"
  shows "backInStockStep send pid V Q item st = st"
  using assms by (auto simp: backInStockStep_def split: option.splits)

lemma backInStockStep_alerts_append:
  "stockAlerts (backInStockStep send pid V Q item st) = stockAlerts st @ stockAlertsFor pid V Q item"
  by (simp add: backInStockStep_def stockAlertsFor_def Let_def split: option.splits)

lemma stock_foldl_alerts:
  "stockAlerts (foldl (\<lambda>st item. backInStockStep send pid V Q item st) st items) =
     stockAlerts st @ concat (map (stockAlertsFor pid V Q) items)"
proof (induction items arbitrary: st)
  case Nil
  show ?case by simp
next
  case (Cons y ys)
  show ?case
    by (simp add: Cons.IH backInStockStep_alerts_append [of send pid V Q y st])
qed

lemma check_stockAlerts:
  "stockAlerts (fst (checkWishlistBackInStock send allItems pid V Q)) =
     concat (map (stockAlertsFor pid V Q) (filter (\<lambda>w. productId w = pid) allItems))"
  by (simp add: checkWishlistBackInStock_def Let_def stock_foldl_alerts)

lemma stockAlertsFor_present:
  assumes "productData item = Some pd" and "customer_of item = Some cu"
  shows "stockAlertsFor pid V Q item =
           (if itemVariantIndex_of pd = V \<and> previousStock_of pd = 0 \<and> 0 < Q
            then [stockCall pid Q pd cu] else [])"
  unfolding stockAlertsFor_def using backInStockStep_alerts [OF assms, of "\<lambda>c. Threw" pid V Q] by simp

lemma stockAlertsFor_absent:
  assumes "productData item = None \<or> customer_of item = None"
  shows "stockAlertsFor pid V Q item = []"
  unfolding stockAlertsFor_def by (simp add: backInStockStep_absent [OF assms])

lemma previousStock_Num [simp]: "variantStockQuantity pd = Num q \<Longrightarrow> previousStock_of pd = q"
  by (simp add: previousStock_of_def js_or_num_def)

lemma itemVariantIndex_Num [simp]: "variantIndex pd = Num i \<Longrightarrow> itemVariantIndex_of pd = i"
  by (simp add: itemVariantIndex_of_def js_or_num_def)

text \<open>
  What the step does to the stored wishlist and what \<open>restocked\<close> is, by the two ways the
  step can go: no write (no alert, or a send that did not succeed), or an alert with a
  successful send.
\<close>

lemma backInStockStep_wishlist_cases:
  "(\<forall>st. stock_wishlist (backInStockStep send pid V Q item st) = stock_wishlist st) \<and>
     restocked send pid V Q item = item \<and>
     \<not> (\<exists>pd cu. productData item = Some pd \<and> customer_of item = Some cu \<and>
          itemVariantIndex_of pd = V \<and> previousStock_of pd = 0 \<and> 0 < Q \<and>
          send (stockCall pid Q pd cu) = Sent) \<or>
   (\<exists>pd cu.
      productData item = Some pd \<and> customer_of item = Some cu \<and>
      itemVariantIndex_of pd = V \<and> previousStock_of pd = 0 \<and> 0 < Q \<and>
      send (stockCall pid Q pd cu) = Sent \<and>
      (\<forall>st. stock_wishlist (backInStockStep send pid V Q item st) =
         wishlistItem_update (stock_wishlist st) (item_id item) (pd\<lparr>variantStockQuantity := Num Q\<rparr>)) \<and>
      restocked send pid V Q item = item\<lparr>productData := Some (pd\<lparr>variantStockQuantity := Num Q\<rparr>)\<rparr>)"
  by (auto simp: backInStockStep_def restocked_def stockCall_def Let_def wishlistItem_update_def
      split: option.splits)

lemma restocked_id [simp]: "item_id (restocked send pid V Q item) = item_id item"
  using backInStockStep_wishlist_cases [of send pid V Q item] by auto

lemma same_id_same_item:
  assumes "distinct (map item_id L0)" and "w \<in> set L0" and "y \<in> set L0" and "item_id w = item_id y"
  shows "w = y"
  using assms by (auto simp: distinct_map dest: inj_onD)

lemma stock_step_wishlist:
  assumes d: "distinct (map item_id L0)" and y: "y \<in> set L0" and fresh: "item_id y \<notin> D"
    and w: "stock_wishlist st = map (\<lambda>w. if item_id w \<in> D then restocked send pid V Q w else w) L0"
  shows "stock_wishlist (backInStockStep send pid V Q y st) =
           map (\<lambda>w. if item_id w \<in> insert (item_id y) D then restocked send pid V Q w else w) L0"
proof -
  from backInStockStep_wishlist_cases [of send pid V Q y] show ?thesis
  proof (elim disjE conjE exE)
    assume keep: "\<forall>st. stock_wishlist (backInStockStep send pid V Q y st) = stock_wishlist st"
      and r: "restocked send pid V Q y = y"
    have "(if item_id x \<in> D then restocked send pid V Q x else x) =
        (if item_id x \<in> insert (item_id y) D then restocked send pid V Q x else x)" if "x \<in> set L0" for x
      using same_id_same_item [OF d that y] r by auto
    then show ?thesis
      by (simp add: keep w cong: map_cong)
  next
    fix pd cu
    assume upd: "\<forall>st. stock_wishlist (backInStockStep send pid V Q y st) =
         wishlistItem_update (stock_wishlist st) (item_id y) (pd\<lparr>variantStockQuantity := Num Q\<rparr>)"
      and r: "restocked send pid V Q y = y\<lparr>productData := Some (pd\<lparr>variantStockQuantity := Num Q\<rparr>)\<rparr>"
    have "(let x' = (if item_id x \<in> D then restocked send pid V Q x else x) in
           if item_id x' = item_id y then x'\<lparr>productData := Some (pd\<lparr>variantStockQuantity := Num Q\<rparr>)\<rparr> else x') =
        (if item_id x \<in> insert (item_id y) D then restocked send pid V Q x else x)" if "x \<in> set L0" for x
      using same_id_same_item [OF d that y] r fresh by (auto simp: Let_def)
    then show ?thesis
      by (simp add: upd w wishlistItem_update_def Let_def comp_def cong: map_cong)
  qed
qed

lemma stock_foldl_wishlist:
  assumes d: "distinct (map item_id L0)"
  shows "set ys \<subseteq> set L0 \<Longrightarrow> distinct (map item_id ys) \<Longrightarrow> D \<inter> item_id ` set ys = {} \<Longrightarrow>
         stock_wishlist st = map (\<lambda>w. if item_id w \<in> D then restocked send pid V Q w else w) L0 \<Longrightarrow>
         stock_wishlist (foldl (\<lambda>st item. backInStockStep send pid V Q item st) st ys) =
           map (\<lambda>w. if item_id w \<in> D \<union> item_id ` set ys then restocked send pid V Q w else w) L0"
proof (induction ys arbitrary: D st)
  case Nil
  then show ?case by simp
next
  case (Cons y ys)
  have y: "y \<in> set L0" and sub: "set ys \<subseteq> set L0"
    using Cons.prems(1) by auto
  have fresh: "item_id y \<notin> D"
    using Cons.prems(3) by auto
  have dys: "distinct (map item_id ys)" and ynot: "item_id y \<notin> item_id ` set ys"
    using Cons.prems(2) by auto
  have disj: "insert (item_id y) D \<inter> item_id ` set ys = {}"
    using Cons.prems(3) ynot by auto
  have step: "stock_wishlist (backInStockStep send pid V Q y st) =
      map (\<lambda>w. if item_id w \<in> insert (item_id y) D then restocked send pid V Q w else w) L0"
    by (rule stock_step_wishlist [OF d y fresh Cons.prems(4)])
  have "insert (item_id y) D \<union> item_id ` set ys = D \<union> item_id ` set (y # ys)"
    by auto
  with Cons.IH [OF sub dys disj step] show ?case
    by simp
qed

text \<open>The store the check leaves, for a wishlist whose items have distinct ids.\<close>

lemma check_stock_wishlist:
  assumes d: "distinct (map item_id allItems)"
  shows "stock_wishlist (fst (checkWishlistBackInStock send allItems pid V Q)) =
           map (\<lambda>w. if productId w = pid then restocked send pid V Q w else w) allItems"
proof -
  let ?ys = "filter (\<lambda>w. productId w = pid) allItems"
  let ?st0 = "\<lparr>stock_wishlist = allItems, stockAlertsSent = 0, stockAlerts = []\<rparr>"
  have ids: "item_id w \<in> item_id ` set ?ys \<longleftrightarrow> productId w = pid" if "w \<in> set allItems" for w
  proof
    assume "item_id w \<in> item_id ` set ?ys"
    then obtain x where x: "x \<in> set allItems" "productId x = pid" "item_id w = item_id x"
      by auto
    from same_id_same_item [OF d that x(1) x(3)] x(2) show "productId w = pid"
      by simp
  next
    assume "productId w = pid"
    with that show "item_id w \<in> item_id ` set ?ys"
      by auto
  qed
  have "stock_wishlist (foldl (\<lambda>st item. backInStockStep send pid V Q item st) ?st0 ?ys) =
      map (\<lambda>w. if item_id w \<in> {} \<union> item_id ` set ?ys then restocked send pid V Q w else w) allItems"
    by (rule stock_foldl_wishlist [OF d]) (simp_all add: d distinct_map_filter)
  also have "\<dots> = map (\<lambda>w. if productId w = pid then restocked send pid V Q w else w) allItems"
    using ids by (simp cong: map_cong)
  finally have fold: "stock_wishlist (foldl (\<lambda>st item. backInStockStep send pid V Q item st) ?st0 ?ys) =
      map (\<lambda>w. if productId w = pid then restocked send pid V Q w else w) allItems" .
  show ?thesis
  proof (cases "?ys = []")
    case True
    then have "\<forall>w\<in>set allItems. productId w \<noteq> pid"
      by (simp add: filter_empty_conv)
    then have "map (\<lambda>w. if productId w = pid then restocked send pid V Q w else w) allItems = allItems"
      by (simp add: map_idI)
    with True show ?thesis
      by (simp add: checkWishlistBackInStock_def Let_def)
  next
    case False
    with fold show ?thesis
      by (simp add: checkWishlistBackInStock_def Let_def)
  qed
qed

lemma restocked_sent:
  assumes "productData item = Some pd" and "customer_of item = Some cu"
    and "itemVariantIndex_of pd = V" and "previousStock_of pd = 0" and "0 < Q"
    and "send (stockCall pid Q pd cu) = Sent"
  shows "restocked send pid V Q item = item\<lparr>productData := Some (pd\<lparr>variantStockQuantity := Num Q\<rparr>)\<rparr>"
  using backInStockStep_wishlist_cases [of send pid V Q item] assms by auto

lemma restocked_unchanged:
  assumes "productData item = Some pd" and "customer_of item = Some cu"
    and "\<not> (itemVariantIndex_of pd = V \<and> previousStock_of pd = 0 \<and> 0 < Q \<and> send (stockCall pid Q pd cu) = Sent)"
  shows "restocked send pid V Q item = item"
  using backInStockStep_wishlist_cases [of send pid V Q item] assms by auto

lemma stored_row:
  assumes d: "distinct (map item_id allItems)" and "item \<in> set allItems"
    and "\<And>w. item_id (f w) = item_id w"
  shows "find (\<lambda>w. item_id w = item_id item) (map f allItems) = Some (f item)"
  using assms
proof (induction allItems)
  case Nil
  then show ?case by simp
next
  case (Cons a as)
  show ?case
  proof (cases "a = item")
    case True
    then show ?thesis
      by (simp add: Cons.prems(3))
  next
    case False
    with Cons.prems have "item \<in> set as" and "item_id a \<noteq> item_id item"
      by (auto simp: image_iff)
    with Cons show ?thesis
      by simp
  qed
qed

text \<open>
  C7. The alerts of a back-in-stock check for product P, variant index V and new
  quantity Q are those of the wishlist items that reference P, one item after the other.
  An item gets an alert only when its cached variant index equals V, its cached stock is
  zero and Q is greater than zero, and then it gets exactly one; on a successful send the
  cached stock quantity is set to Q, in the loop body and in the wishlist the check
  leaves behind: there the row of the item carries the snapshot with the stock quantity Q
  (items with distinct ids), and the row of an item without a successful alert is as it
  was. A cached stock of 3 with Q = 5 gives no alert, and a cached variant index other
  than V gives no alert whatever the stock values are.
\<close>

theorem checkWishlistBackInStock_transition:
  assumes "productData item = Some pd" and "customer_of item = Some cu"
  shows "stockAlerts (fst (checkWishlistBackInStock send allItems pid V Q)) =
           concat (map (stockAlertsFor pid V Q) (filter (\<lambda>w. productId w = pid) allItems))
       \<and> (stockAlertsFor pid V Q item \<noteq> [] \<longrightarrow> itemVariantIndex_of pd = V \<and> previousStock_of pd = 0 \<and> 0 < Q)
       \<and> (itemVariantIndex_of pd = V \<and> previousStock_of pd = 0 \<and> 0 < Q \<longrightarrow>
             stockAlertsFor pid V Q item = [stockCall pid Q pd cu]
           \<and> stock_quantity (stockCall pid Q pd cu) = Q
           \<and> (send (stockCall pid Q pd cu) = Sent \<longrightarrow>
                stock_wishlist (backInStockStep send pid V Q item st) =
                  wishlistItem_update (stock_wishlist st) (item_id item) (pd\<lparr>variantStockQuantity := Num Q\<rparr>)
              \<and> variantStockQuantity (pd\<lparr>variantStockQuantity := Num Q\<rparr>) = Num Q))
       \<and> (\<forall>i. variantIndex pd = Num i \<longrightarrow> itemVariantIndex_of pd = i)
       \<and> (\<forall>q. variantStockQuantity pd = Num q \<longrightarrow> previousStock_of pd = q)
       \<and> (variantStockQuantity pd = Num 3 \<longrightarrow> stockAlertsFor pid V 5 item = [])
       \<and> (itemVariantIndex_of pd \<noteq> V \<longrightarrow> stockAlertsFor pid V Q item = [])
       \<and> (distinct (map item_id allItems) \<and> item \<in> set allItems \<and> productId item = pid \<longrightarrow>
             (itemVariantIndex_of pd = V \<and> previousStock_of pd = 0 \<and> 0 < Q \<and>
              send (stockCall pid Q pd cu) = Sent \<longrightarrow>
                find (\<lambda>w. item_id w = item_id item)
                  (stock_wishlist (fst (checkWishlistBackInStock send allItems pid V Q))) =
                  Some (item\<lparr>productData := Some (pd\<lparr>variantStockQuantity := Num Q\<rparr>)\<rparr>))
           \<and> (\<not> (itemVariantIndex_of pd = V \<and> previousStock_of pd = 0 \<and> 0 < Q \<and>
                 send (stockCall pid Q pd cu) = Sent) \<longrightarrow>
                find (\<lambda>w. item_id w = item_id item)
                  (stock_wishlist (fst (checkWishlistBackInStock send allItems pid V Q))) = Some item))"
proof -
  note a = stockAlertsFor_present [OF assms]
  have only: "itemVariantIndex_of pd = V \<and> previousStock_of pd = 0 \<and> 0 < Q"
    if "stockAlertsFor pid V Q item \<noteq> []"
    using that a [of pid V Q] by (simp split: if_splits)
  have fires: "stockAlertsFor pid V Q item = [stockCall pid Q pd cu]"
    if "itemVariantIndex_of pd = V \<and> previousStock_of pd = 0 \<and> 0 < Q"
    using that a [of pid V Q] by simp
  have qty: "stock_quantity (stockCall pid Q pd cu) = Q"
    by (simp add: stockCall_def)
  have upd: "stock_wishlist (backInStockStep send pid V Q item st) =
      wishlistItem_update (stock_wishlist st) (item_id item) (pd\<lparr>variantStockQuantity := Num Q\<rparr>)"
    if "itemVariantIndex_of pd = V \<and> previousStock_of pd = 0 \<and> 0 < Q" "send (stockCall pid Q pd cu) = Sent"
    using backInStockStep_updates [OF assms, of V Q send pid st] that by blast
  have fld: "variantStockQuantity (pd\<lparr>variantStockQuantity := Num Q\<rparr>) = Num Q"
    by simp
  have three: "stockAlertsFor pid V 5 item = []" if "variantStockQuantity pd = Num 3"
    using a [of pid V 5] that by simp
  have other: "stockAlertsFor pid V Q item = []" if "itemVariantIndex_of pd \<noteq> V"
    using a [of pid V Q] that by simp
  have ix: "\<forall>i. variantIndex pd = Num i \<longrightarrow> itemVariantIndex_of pd = i"
    by simp
  have sq: "\<forall>q. variantStockQuantity pd = Num q \<longrightarrow> previousStock_of pd = q"
    by simp
  have row: "find (\<lambda>w. item_id w = item_id item)
      (stock_wishlist (fst (checkWishlistBackInStock send allItems pid V Q))) =
      Some (restocked send pid V Q item)"
    if "distinct (map item_id allItems)" "item \<in> set allItems" "productId item = pid"
  proof -
    have "find (\<lambda>w. item_id w = item_id item)
        (map (\<lambda>w. if productId w = pid then restocked send pid V Q w else w) allItems) =
        Some (if productId item = pid then restocked send pid V Q item else item)"
      by (rule stored_row [OF that(1,2)]) simp
    with that(3) show ?thesis
      by (simp add: check_stock_wishlist [OF that(1)])
  qed
  have stored_yes: "find (\<lambda>w. item_id w = item_id item)
      (stock_wishlist (fst (checkWishlistBackInStock send allItems pid V Q))) =
      Some (item\<lparr>productData := Some (pd\<lparr>variantStockQuantity := Num Q\<rparr>)\<rparr>)"
    if "distinct (map item_id allItems)" "item \<in> set allItems" "productId item = pid"
      "itemVariantIndex_of pd = V \<and> previousStock_of pd = 0 \<and> 0 < Q \<and> send (stockCall pid Q pd cu) = Sent"
  proof -
    have "restocked send pid V Q item = item\<lparr>productData := Some (pd\<lparr>variantStockQuantity := Num Q\<rparr>)\<rparr>"
      using restocked_sent [where item = item and pd = pd and cu = cu and V = V and Q = Q
          and send = send and pid = pid] assms that(4) by blast
    with row [OF that(1-3)] show ?thesis by simp
  qed
  have stored_no: "find (\<lambda>w. item_id w = item_id item)
      (stock_wishlist (fst (checkWishlistBackInStock send allItems pid V Q))) = Some item"
    if "distinct (map item_id allItems)" "item \<in> set allItems" "productId item = pid"
      "\<not> (itemVariantIndex_of pd = V \<and> previousStock_of pd = 0 \<and> 0 < Q \<and> send (stockCall pid Q pd cu) = Sent)"
  proof -
    have "restocked send pid V Q item = item"
      using restocked_unchanged [where item = item and pd = pd and cu = cu and V = V and Q = Q
          and send = send and pid = pid] assms that(4) by blast
    with row [OF that(1-3)] show ?thesis by simp
  qed
  from check_stockAlerts [of send allItems pid V Q] only fires qty upd fld three other ix sq
    stored_yes stored_no
  show ?thesis by blast
qed

theorem checkWishlistBackInStock_transition_witness:
  "length (stockAlerts (fst (checkWishlistBackInStock (\<lambda>c. Sent) [sample_item] ''p1'' 0 5))) = 1
   \<and> stockAlertsFor ''p1'' 1 5 sample_item = []
   \<and> stockAlertsFor ''p1'' 0 5 (sample_item\<lparr>productData := Some (sample_snapshot\<lparr>variantStockQuantity := Num 3\<rparr>)\<rparr>) = []
   \<and> stock_wishlist (backInStockStep (\<lambda>c. Sent) ''p1'' 0 5 sample_item
         \<lparr>stock_wishlist = [sample_item], stockAlertsSent = 0, stockAlerts = []\<rparr>) =
       [sample_item\<lparr>productData := Some (sample_snapshot\<lparr>variantStockQuantity := Num 5\<rparr>)\<rparr>]
   \<and> find (\<lambda>w. item_id w = ''w1'') (stock_wishlist (fst (checkWishlistBackInStock (\<lambda>c. Sent) [sample_item] ''p1'' 0 5))) =
       Some (sample_item\<lparr>productData := Some (sample_snapshot\<lparr>variantStockQuantity := Num 5\<rparr>)\<rparr>)
   \<and> find (\<lambda>w. item_id w = ''w1'') (stock_wishlist (fst (checkWishlistBackInStock (\<lambda>c. Sent) [sample_item] ''p1'' 1 5))) =
       Some sample_item"
proof -
  have cu: "customer_of sample_item = Some \<lparr>ref_userId = ''u1'', ref_name = ''Ann''\<rparr>"
    by (simp add: sample_item_def)
  have pd: "productData sample_item = Some sample_snapshot"
    by (simp add: sample_item_def)
  have pd3: "productData (sample_item\<lparr>productData := Some (sample_snapshot\<lparr>variantStockQuantity := Num 3\<rparr>)\<rparr>) =
      Some (sample_snapshot\<lparr>variantStockQuantity := Num 3\<rparr>)"
    by simp
  have cu3: "customer_of (sample_item\<lparr>productData := Some (sample_snapshot\<lparr>variantStockQuantity := Num 3\<rparr>)\<rparr>) =
      Some \<lparr>ref_userId = ''u1'', ref_name = ''Ann''\<rparr>"
    by (simp add: sample_item_def)
  have ix: "itemVariantIndex_of sample_snapshot = 0" and st: "previousStock_of sample_snapshot = 0"
    by (simp_all add: sample_snapshot_def itemVariantIndex_of_def previousStock_of_def js_or_num_def)
  have pid: "productId sample_item = ''p1''" and iid: "item_id sample_item = ''w1''"
    by (simp_all add: sample_item_def)
  have dist: "distinct (map item_id [sample_item])" and mem: "sample_item \<in> set [sample_item]"
    by simp_all
  have a: "length (stockAlerts (fst (checkWishlistBackInStock (\<lambda>c. Sent) [sample_item] ''p1'' 0 5))) = 1"
    using checkWishlistBackInStock_transition [OF pd cu, of "\<lambda>c. Sent" "[sample_item]" "''p1''" 0 5] ix st pid
    by simp
  have b: "stockAlertsFor ''p1'' 1 5 sample_item = []"
    using checkWishlistBackInStock_transition [OF pd cu, of "\<lambda>c. Sent" "[sample_item]" "''p1''" 1 5] ix
    by simp
  have c: "stockAlertsFor ''p1'' 0 5
      (sample_item\<lparr>productData := Some (sample_snapshot\<lparr>variantStockQuantity := Num 3\<rparr>)\<rparr>) = []"
    using checkWishlistBackInStock_transition [OF pd3 cu3, of "\<lambda>c. Sent" "[sample_item]" "''p1''" 0 5]
    by simp
  have d: "stock_wishlist (backInStockStep (\<lambda>c. Sent) ''p1'' 0 5 sample_item
         \<lparr>stock_wishlist = [sample_item], stockAlertsSent = 0, stockAlerts = []\<rparr>) =
       [sample_item\<lparr>productData := Some (sample_snapshot\<lparr>variantStockQuantity := Num 5\<rparr>)\<rparr>]"
    using checkWishlistBackInStock_transition [OF pd cu, of "\<lambda>c. Sent" "[sample_item]" "''p1''" 0 5
        "\<lparr>stock_wishlist = [sample_item], stockAlertsSent = 0, stockAlerts = []\<rparr>"] ix st
    by (simp add: wishlistItem_update_def)
  from checkWishlistBackInStock_transition [OF pd cu, of "\<lambda>c. Sent" "[sample_item]" "''p1''" 0 5]
  have "distinct (map item_id [sample_item]) \<and> sample_item \<in> set [sample_item] \<and> productId sample_item = ''p1'' \<longrightarrow>
      (itemVariantIndex_of sample_snapshot = 0 \<and> previousStock_of sample_snapshot = 0 \<and> (0::int) < 5 \<and>
        (\<lambda>c. Sent) (stockCall ''p1'' 5 sample_snapshot \<lparr>ref_userId = ''u1'', ref_name = ''Ann''\<rparr>) = Sent \<longrightarrow>
       find (\<lambda>w. item_id w = item_id sample_item)
         (stock_wishlist (fst (checkWishlistBackInStock (\<lambda>c. Sent) [sample_item] ''p1'' 0 5))) =
         Some (sample_item\<lparr>productData := Some (sample_snapshot\<lparr>variantStockQuantity := Num 5\<rparr>)\<rparr>))"
    by blast
  with dist mem pid ix st
  have e: "find (\<lambda>w. item_id w = ''w1'')
      (stock_wishlist (fst (checkWishlistBackInStock (\<lambda>c. Sent) [sample_item] ''p1'' 0 5))) =
      Some (sample_item\<lparr>productData := Some (sample_snapshot\<lparr>variantStockQuantity := Num 5\<rparr>)\<rparr>)"
    by (simp add: iid)
  from checkWishlistBackInStock_transition [OF pd cu, of "\<lambda>c. Sent" "[sample_item]" "''p1''" 1 5]
  have "distinct (map item_id [sample_item]) \<and> sample_item \<in> set [sample_item] \<and> productId sample_item = ''p1'' \<longrightarrow>
      (\<not> (itemVariantIndex_of sample_snapshot = 1 \<and> previousStock_of sample_snapshot = 0 \<and> (0::int) < 5 \<and>
        (\<lambda>c. Sent) (stockCall ''p1'' 5 sample_snapshot \<lparr>ref_userId = ''u1'', ref_name = ''Ann''\<rparr>) = Sent) \<longrightarrow>
       find (\<lambda>w. item_id w = item_id sample_item)
         (stock_wishlist (fst (checkWishlistBackInStock (\<lambda>c. Sent) [sample_item] ''p1'' 1 5))) =
         Some sample_item)"
    by blast
  with dist mem pid ix
  have f: "find (\<lambda>w. item_id w = ''w1'')
      (stock_wishlist (fst (checkWishlistBackInStock (\<lambda>c. Sent) [sample_item] ''p1'' 1 5))) = Some sample_item"
    by (simp add: iid)
  from a b c d e f show ?thesis by blast
qed

text \<open>
  C10. A snapshot whose stock-quantity field is missing or null is read as a previous
  stock of zero: with the matching variant index and a new quantity above zero the item
  gets exactly one alert, which is among the alerts of the check, and on a successful
  send the stored snapshot gets the new quantity, in the loop body and in the wishlist
  the check leaves behind (items with distinct ids), although no zero was ever recorded
  in it.
\<close>

theorem checkWishlistBackInStock_missing_stock:
  assumes "productData item = Some pd" and "customer_of item = Some cu"
    and "variantStockQuantity pd = Undefined \<or> variantStockQuantity pd = Null"
    and "itemVariantIndex_of pd = V" and "0 < Q"
  shows "previousStock_of pd = 0
       \<and> stockAlertsFor pid V Q item = [stockCall pid Q pd cu]
       \<and> stockAlerts (backInStockStep send pid V Q item st) = stockAlerts st @ [stockCall pid Q pd cu]
       \<and> (send (stockCall pid Q pd cu) = Sent \<longrightarrow>
            stock_wishlist (backInStockStep send pid V Q item st) =
              wishlistItem_update (stock_wishlist st) (item_id item) (pd\<lparr>variantStockQuantity := Num Q\<rparr>)
          \<and> stockAlertsSent (backInStockStep send pid V Q item st) = stockAlertsSent st + 1)
       \<and> (item \<in> set allItems \<and> productId item = pid \<longrightarrow>
            stockCall pid Q pd cu \<in> set (stockAlerts (fst (checkWishlistBackInStock send allItems pid V Q)))
          \<and> stock_quantity (stockCall pid Q pd cu) = Q
          \<and> stock_userId (stockCall pid Q pd cu) = ref_userId cu
          \<and> (distinct (map item_id allItems) \<and> send (stockCall pid Q pd cu) = Sent \<longrightarrow>
               find (\<lambda>w. item_id w = item_id item)
                 (stock_wishlist (fst (checkWishlistBackInStock send allItems pid V Q))) =
                 Some (item\<lparr>productData := Some (pd\<lparr>variantStockQuantity := Num Q\<rparr>)\<rparr>)
             \<and> variantStockQuantity (pd\<lparr>variantStockQuantity := Num Q\<rparr>) = Num Q))"
proof -
  from assms(3) have zero: "previousStock_of pd = 0"
    by (auto simp: previousStock_of_def js_or_num_def)
  have one: "stockAlertsFor pid V Q item = [stockCall pid Q pd cu]"
    using stockAlertsFor_present [OF assms(1,2), of pid V Q] zero assms(4,5) by simp
  have app: "stockAlerts (backInStockStep send pid V Q item st) = stockAlerts st @ [stockCall pid Q pd cu]"
    using backInStockStep_alerts [OF assms(1,2), of send pid V Q st] zero assms(4,5) by simp
  have upd: "stock_wishlist (backInStockStep send pid V Q item st) =
      wishlistItem_update (stock_wishlist st) (item_id item) (pd\<lparr>variantStockQuantity := Num Q\<rparr>)"
    if "send (stockCall pid Q pd cu) = Sent"
    using backInStockStep_updates [OF assms(1,2,4) zero assms(5), of send pid st] that by blast
  have cnt: "stockAlertsSent (backInStockStep send pid V Q item st) = stockAlertsSent st + 1"
    if "send (stockCall pid Q pd cu) = Sent"
    using assms(1,2,4,5) zero that by (simp add: backInStockStep_def stockCall_def Let_def)
  have among: "stockCall pid Q pd cu \<in> set (stockAlerts (fst (checkWishlistBackInStock send allItems pid V Q)))"
    if "item \<in> set allItems" "productId item = pid"
  proof -
    from that have "item \<in> set (filter (\<lambda>w. productId w = pid) allItems)"
      by simp
    with one show ?thesis
      unfolding check_stockAlerts by (auto intro: bexI [of _ item])
  qed
  have call: "stock_quantity (stockCall pid Q pd cu) = Q" "stock_userId (stockCall pid Q pd cu) = ref_userId cu"
    by (simp_all add: stockCall_def)
  have stored: "find (\<lambda>w. item_id w = item_id item)
      (stock_wishlist (fst (checkWishlistBackInStock send allItems pid V Q))) =
      Some (item\<lparr>productData := Some (pd\<lparr>variantStockQuantity := Num Q\<rparr>)\<rparr>)"
    if "item \<in> set allItems" "productId item = pid" "distinct (map item_id allItems)"
      "send (stockCall pid Q pd cu) = Sent"
  proof -
    have "find (\<lambda>w. item_id w = item_id item)
        (map (\<lambda>w. if productId w = pid then restocked send pid V Q w else w) allItems) =
        Some (if productId item = pid then restocked send pid V Q item else item)"
      by (rule stored_row [OF that(3,1)]) simp
    moreover have "restocked send pid V Q item = item\<lparr>productData := Some (pd\<lparr>variantStockQuantity := Num Q\<rparr>)\<rparr>"
      using restocked_sent [where item = item and pd = pd and cu = cu and V = V and Q = Q
          and send = send and pid = pid] assms(1,2,4,5) zero that(4) by blast
    ultimately show ?thesis
      using that(2) by (simp add: check_stock_wishlist [OF that(3)])
  qed
  have fld: "variantStockQuantity (pd\<lparr>variantStockQuantity := Num Q\<rparr>) = Num Q"
    by simp
  from zero one app upd cnt among call stored fld show ?thesis by blast
qed

theorem checkWishlistBackInStock_missing_stock_witness:
  "stockAlertsFor ''p1'' 0 5 (sample_item\<lparr>productData := Some (sample_snapshot\<lparr>variantStockQuantity := Undefined\<rparr>)\<rparr>) =
     [stockCall ''p1'' 5 (sample_snapshot\<lparr>variantStockQuantity := Undefined\<rparr>) \<lparr>ref_userId = ''u1'', ref_name = ''Ann''\<rparr>]
   \<and> stock_wishlist (backInStockStep (\<lambda>c. Sent) ''p1'' 0 5
         (sample_item\<lparr>productData := Some (sample_snapshot\<lparr>variantStockQuantity := Null\<rparr>)\<rparr>)
         \<lparr>stock_wishlist = [sample_item\<lparr>productData := Some (sample_snapshot\<lparr>variantStockQuantity := Null\<rparr>)\<rparr>],
          stockAlertsSent = 0, stockAlerts = []\<rparr>) =
       [sample_item\<lparr>productData := Some (sample_snapshot\<lparr>variantStockQuantity := Num 5\<rparr>)\<rparr>]
   \<and> find (\<lambda>w. item_id w = ''w1'')
        (stock_wishlist (fst (checkWishlistBackInStock (\<lambda>c. Sent)
           [sample_item\<lparr>productData := Some (sample_snapshot\<lparr>variantStockQuantity := Undefined\<rparr>)\<rparr>] ''p1'' 0 5))) =
       Some (sample_item\<lparr>productData := Some (sample_snapshot\<lparr>variantStockQuantity := Num 5\<rparr>)\<rparr>)
   \<and> length (stockAlerts (fst (checkWishlistBackInStock (\<lambda>c. Sent)
           [sample_item\<lparr>productData := Some (sample_snapshot\<lparr>variantStockQuantity := Undefined\<rparr>)\<rparr>] ''p1'' 0 5))) > 0"
proof -
  let ?pdU = "sample_snapshot\<lparr>variantStockQuantity := Undefined\<rparr>"
  let ?pdN = "sample_snapshot\<lparr>variantStockQuantity := Null\<rparr>"
  let ?cu = "\<lparr>ref_userId = ''u1'', ref_name = ''Ann''\<rparr>"
  let ?itemU = "sample_item\<lparr>productData := Some ?pdU\<rparr>"
  have cu: "customer_of (sample_item\<lparr>productData := Some p\<rparr>) = Some ?cu" for p
    by (simp add: sample_item_def)
  have pd: "productData (sample_item\<lparr>productData := Some p\<rparr>) = Some p" for p
    by simp
  have ixU: "itemVariantIndex_of ?pdU = 0" and ixN: "itemVariantIndex_of ?pdN = 0"
    by (simp_all add: sample_snapshot_def itemVariantIndex_of_def js_or_num_def)
  have a: "stockAlertsFor ''p1'' 0 5 ?itemU = [stockCall ''p1'' 5 ?pdU ?cu]"
    using checkWishlistBackInStock_missing_stock [OF pd cu _ ixU, of 5 "''p1''" "\<lambda>c. Sent"]
    by simp
  have b: "stock_wishlist (backInStockStep (\<lambda>c. Sent) ''p1'' 0 5 (sample_item\<lparr>productData := Some ?pdN\<rparr>)
         \<lparr>stock_wishlist = [sample_item\<lparr>productData := Some ?pdN\<rparr>], stockAlertsSent = 0, stockAlerts = []\<rparr>) =
       [sample_item\<lparr>productData := Some (sample_snapshot\<lparr>variantStockQuantity := Num 5\<rparr>)\<rparr>]"
    using checkWishlistBackInStock_missing_stock [OF pd cu _ ixN, of 5 "''p1''" "\<lambda>c. Sent"
        "\<lparr>stock_wishlist = [sample_item\<lparr>productData := Some ?pdN\<rparr>], stockAlertsSent = 0, stockAlerts = []\<rparr>"]
    by (simp add: wishlistItem_update_def)
  have und: "variantStockQuantity ?pdU = Undefined \<or> variantStockQuantity ?pdU = Null"
    by simp
  have pos: "(0::int) < 5"
    by simp
  note main = checkWishlistBackInStock_missing_stock [OF pd cu und ixU pos,
      where pid = "''p1''" and send = "\<lambda>c. Sent" and allItems = "[?itemU]"]
  have mem: "?itemU \<in> set [?itemU]" and pid: "productId ?itemU = ''p1''"
    and dist: "distinct (map item_id [?itemU])" and iid: "item_id ?itemU = ''w1''"
    by (simp_all add: sample_item_def)
  from main mem pid dist
  have "find (\<lambda>w. item_id w = item_id ?itemU)
      (stock_wishlist (fst (checkWishlistBackInStock (\<lambda>c. Sent) [?itemU] ''p1'' 0 5))) =
      Some (?itemU\<lparr>productData := Some (?pdU\<lparr>variantStockQuantity := Num 5\<rparr>)\<rparr>)"
    by blast
  then have c: "find (\<lambda>w. item_id w = ''w1'')
      (stock_wishlist (fst (checkWishlistBackInStock (\<lambda>c. Sent) [?itemU] ''p1'' 0 5))) =
      Some (sample_item\<lparr>productData := Some (sample_snapshot\<lparr>variantStockQuantity := Num 5\<rparr>)\<rparr>)"
    by (simp add: iid)
  from main mem pid
  have "stockCall ''p1'' 5 ?pdU ?cu \<in> set (stockAlerts (fst (checkWishlistBackInStock (\<lambda>c. Sent) [?itemU] ''p1'' 0 5)))"
    by blast
  then have d: "length (stockAlerts (fst (checkWishlistBackInStock (\<lambda>c. Sent) [?itemU] ''p1'' 0 5))) > 0"
    by (metis length_greater_0_conv empty_iff empty_set)
  from a b c d show ?thesis by blast
qed

section \<open>Properties of generateExpenseNumber\<close>

lemma digit_of_props:
  assumes "d < 10"
  shows "is_digit (digit_of d)" and "digit_val (digit_of d) = d"
proof -
  from assms have "d \<in> {0, 1, 2, 3, 4, 5, 6, 7, 8, 9}"
    by auto
  then show "is_digit (digit_of d)" and "digit_val (digit_of d) = d"
    by (auto simp: is_digit_def digit_val_def digit_of_def)
qed

lemma dec_nonempty: "dec n \<noteq> []"
  by (subst dec.simps) simp

lemma dec_digits: "c \<in> set (dec n) \<Longrightarrow> is_digit c"
proof (induction n arbitrary: c rule: dec.induct)
  case (1 n)
  show ?case
  proof (cases "n < 10")
    case True
    with "1.prems" show ?thesis
      by (subst (asm) dec.simps) (simp add: digit_of_props)
  next
    case False
    with "1.prems" have "c \<in> set (dec (n div 10)) \<or> c = digit_of (n mod 10)"
      by (subst (asm) dec.simps) auto
    with "1.IH" [OF False] show ?thesis
      by (auto simp: digit_of_props)
  qed
qed

lemma digits_val_snoc: "digits_val (ds @ [c]) = 10 * digits_val ds + digit_val c"
  by (simp add: digits_val_def)

lemma digits_val_dec: "digits_val (dec n) = n"
proof (induction n rule: dec.induct)
  case (1 n)
  show ?case
  proof (cases "n < 10")
    case True
    then show ?thesis
      by (subst dec.simps) (simp add: digits_val_def digit_of_props)
  next
    case False
    have "digits_val (dec n) = 10 * digits_val (dec (n div 10)) + digit_val (digit_of (n mod 10))"
      using False by (subst dec.simps) (simp add: digits_val_snoc)
    with "1.IH" [OF False] show ?thesis
      by (simp add: digit_of_props)
  qed
qed

lemma digits_val_zeros: "digits_val (replicate k CHR ''0'' @ ds) = digits_val ds"
  by (induction k) (simp_all add: digits_val_def digit_val_def)

lemma is_digit_not_special:
  "is_digit c \<Longrightarrow> c \<noteq> CHR ''-'' \<and> c \<noteq> CHR ''+'' \<and> \<not> is_space c"
  by (auto simp: is_digit_def is_space_def)

lemma split_dash_nodash: "CHR ''-'' \<notin> set a \<Longrightarrow> split_dash a = [a]"
  by (induction a) auto

lemma split_dash_first: "CHR ''-'' \<notin> set a \<Longrightarrow> split_dash (a @ CHR ''-'' # rest) = a # split_dash rest"
  by (induction a) auto

lemma parseInt10_digits:
  assumes "ds \<noteq> []" and "\<forall>c\<in>set ds. is_digit c"
  shows "parseInt10 (Some ds) = Some (int (digits_val ds))"
proof -
  from assms have c: "is_digit (hd ds)" by simp
  have 1: "dropWhile is_space ds = ds"
    using is_digit_not_special [OF c] assms(1) by (cases ds) simp_all
  have 2: "takeWhile is_digit ds = ds"
    using assms(2) by simp
  show ?thesis
    using is_digit_not_special [OF c] assms(1)
    by (simp add: parseInt10_def 1 2 Let_def)
qed

lemma padStart3_digits: "\<forall>c\<in>set ds. is_digit c \<Longrightarrow> \<forall>c\<in>set (padStart3 ds). is_digit c"
  by (auto simp: padStart3_def is_digit_def)

lemma digits_val_padStart3: "digits_val (padStart3 ds) = digits_val ds"
  by (simp add: padStart3_def digits_val_zeros)

lemma yearPrefix_split:
  assumes "CHR ''-'' \<notin> set ds"
  shows "split_dash (yearPrefix y @ ds) = [''EXP'', dec y, ds]"
proof -
  have nd: "CHR ''-'' \<notin> set (dec y)"
    using dec_digits [of "CHR ''-''" y] is_digit_not_special [of "CHR ''-''"] by blast
  have "yearPrefix y @ ds = ''EXP'' @ CHR ''-'' # (dec y @ CHR ''-'' # ds)"
    by (simp add: yearPrefix_def)
  then have "split_dash (yearPrefix y @ ds) = ''EXP'' # split_dash (dec y @ CHR ''-'' # ds)"
    by (simp only: split_dash_first) simp
  also have "split_dash (dec y @ CHR ''-'' # ds) = dec y # split_dash ds"
    by (rule split_dash_first [OF nd])
  also have "split_dash ds = [ds]"
    by (rule split_dash_nodash [OF assms])
  finally show ?thesis .
qed

lemma generate_form:
  "generateExpenseNumber y xs = yearPrefix y @ padStart3 (number_toString
     (case findFirst_latest (\<lambda>e. startsWith (expenseNumber e) (yearPrefix y)) xs of
        None \<Rightarrow> Some 1
      | Some e \<Rightarrow> map_option (\<lambda>n. n + 1) (parseInt10 (part_at (split_dash (expenseNumber e)) 2))))"
  by (simp add: generateExpenseNumber_def yearPrefix_def Let_def split: option.splits)

lemma generate_first:
  assumes "findFirst_latest (\<lambda>e. startsWith (expenseNumber e) (yearPrefix y)) xs = None"
  shows "generateExpenseNumber y xs = yearPrefix y @ ''001''"
  by (simp add: generate_form assms number_toString_def padStart3_def dec.simps digit_of_def eval_nat_numeral)

lemma generate_next:
  assumes "findFirst_latest (\<lambda>e. startsWith (expenseNumber e) (yearPrefix y)) xs = Some e"
    and "expenseNumber e = yearPrefix y @ ds" and "ds \<noteq> []" and "\<forall>c\<in>set ds. is_digit c"
  shows "generateExpenseNumber y xs = yearPrefix y @ padStart3 (dec (digits_val ds + 1))"
proof -
  have nd: "CHR ''-'' \<notin> set ds"
    using assms(4) is_digit_not_special [of "CHR ''-''"] by blast
  have "part_at (split_dash (expenseNumber e)) 2 = Some ds"
    by (simp add: assms(2) yearPrefix_split [OF nd] part_at_def)
  then show ?thesis
    by (simp add: generate_form assms(1) parseInt10_digits [OF assms(3,4)] number_toString_def
        nat_add_distrib)
qed

lemma pick_latest_mem:
  "foldl (\<lambda>best e. if expense_createdAt e > expense_createdAt best then e else best) m ms \<in> set (m # ms)"
  by (induction ms arbitrary: m) (auto split: if_splits)

lemma pick_latest_mono:
  "expense_createdAt m \<le> expense_createdAt
     (foldl (\<lambda>best e. if expense_createdAt e > expense_createdAt best then e else best) m ms)"
proof (induction ms arbitrary: m)
  case Nil
  show ?case by simp
next
  case (Cons x ms)
  let ?b = "if expense_createdAt x > expense_createdAt m then x else m"
  have "expense_createdAt m \<le> expense_createdAt ?b"
    by simp
  also have "\<dots> \<le> expense_createdAt
      (foldl (\<lambda>best e. if expense_createdAt e > expense_createdAt best then e else best) ?b ms)"
    by (rule Cons.IH)
  finally show ?case by simp
qed

lemma pick_latest_max:
  "e' \<in> set (m # ms) \<Longrightarrow>
   expense_createdAt e' \<le> expense_createdAt
     (foldl (\<lambda>best e. if expense_createdAt e > expense_createdAt best then e else best) m ms)"
proof (induction ms arbitrary: m)
  case Nil
  then show ?case by simp
next
  case (Cons x ms)
  let ?b = "if expense_createdAt x > expense_createdAt m then x else m"
  let ?r = "foldl (\<lambda>best e. if expense_createdAt e > expense_createdAt best then e else best) ?b ms"
  have b: "expense_createdAt ?b \<le> expense_createdAt ?r"
    by (rule pick_latest_mono)
  from Cons.prems consider "e' = m" | "e' = x" | "e' \<in> set ms" by auto
  then have "expense_createdAt e' \<le> expense_createdAt ?r"
  proof cases
    case 1
    have "expense_createdAt m \<le> expense_createdAt ?b" by simp
    with b 1 show ?thesis by (simp only: order_trans)
  next
    case 2
    have "expense_createdAt x \<le> expense_createdAt ?b" by simp
    with b 2 show ?thesis by (simp only: order_trans)
  next
    case 3
    then have "e' \<in> set (?b # ms)" by simp
    then show ?thesis by (rule Cons.IH)
  qed
  then show ?case by simp
qed

lemma findFirst_latest_None_iff: "findFirst_latest P xs = None \<longleftrightarrow> (\<forall>e\<in>set xs. \<not> P e)"
proof -
  have "filter P xs = [] \<longleftrightarrow> (\<forall>e\<in>set xs. \<not> P e)"
    by (simp add: filter_empty_conv)
  then show ?thesis
    by (cases "filter P xs") (simp_all add: findFirst_latest_def)
qed

lemma findFirst_latest_SomeD:
  assumes "findFirst_latest P xs = Some e"
  shows "e \<in> set xs \<and> P e \<and> (\<forall>e'\<in>set xs. P e' \<longrightarrow> expense_createdAt e' \<le> expense_createdAt e)"
proof -
  from assms obtain m ms where f: "filter P xs = m # ms"
    and e: "e = foldl (\<lambda>best e. if expense_createdAt e > expense_createdAt best then e else best) m ms"
    by (auto simp: findFirst_latest_def split: list.splits)
  have "e \<in> set (filter P xs)"
    unfolding f e by (rule pick_latest_mem)
  moreover have "expense_createdAt e' \<le> expense_createdAt e" if "e' \<in> set xs" "P e'" for e'
  proof -
    from that have "e' \<in> set (m # ms)"
      unfolding f [symmetric] by simp
    then show ?thesis
      unfolding e by (rule pick_latest_max)
  qed
  ultimately show ?thesis by auto
qed

lemma findFirst_latest_snoc:
  assumes "P e'" and "\<forall>e\<in>set xs. expense_createdAt e < expense_createdAt e'"
  shows "findFirst_latest P (xs @ [e']) = Some e'"
proof (cases "filter P xs")
  case Nil
  with assms(1) show ?thesis
    by (simp add: findFirst_latest_def)
next
  case (Cons m ms)
  let ?b = "foldl (\<lambda>best e. if expense_createdAt e > expense_createdAt best then e else best) m ms"
  have "?b \<in> set (filter P xs)"
    unfolding Cons by (rule pick_latest_mem)
  with assms(2) have "expense_createdAt ?b < expense_createdAt e'"
    by simp
  with Cons assms(1) show ?thesis
    by (simp add: findFirst_latest_def)
qed

lemma startsWith_append [simp]: "startsWith (p @ s) p"
  by (simp add: startsWith_def)

lemma generate_after_create:
  assumes later: "\<forall>e\<in>set xs. expense_createdAt e < clock"
    and g: "generateExpenseNumber y xs = yearPrefix y @ padStart3 (dec m)"
  shows "generateExpenseNumber y (createExpense y clock xs) = yearPrefix y @ padStart3 (dec (m + 1))"
proof -
  let ?e = "\<lparr>expenseNumber = yearPrefix y @ padStart3 (dec m), expense_createdAt = clock\<rparr>"
  have c: "createExpense y clock xs = xs @ [?e]"
    by (simp add: createExpense_def g)
  have l: "findFirst_latest (\<lambda>e. startsWith (expenseNumber e) (yearPrefix y)) (xs @ [?e]) = Some ?e"
    by (rule findFirst_latest_snoc) (simp_all add: later)
  have d: "\<forall>c\<in>set (padStart3 (dec m)). is_digit c"
    by (rule padStart3_digits) (simp add: dec_digits)
  have ne: "padStart3 (dec m) \<noteq> []"
    by (simp add: padStart3_def dec_nonempty)
  have "generateExpenseNumber y (xs @ [?e]) =
      yearPrefix y @ padStart3 (dec (digits_val (padStart3 (dec m)) + 1))"
    by (rule generate_next [OF l _ ne d]) simp
  then show ?thesis
    by (simp add: c digits_val_padStart3 digits_val_dec)
qed

lemma dec_inject: "dec a = dec b \<Longrightarrow> a = b"
  by (metis digits_val_dec)

lemma dec_no_dash: "CHR ''-'' \<notin> set (dec n)"
  using dec_digits [of "CHR ''-''" n] is_digit_not_special [of "CHR ''-''"] by blast

lemma other_year_prefix:
  assumes "y' \<noteq> y"
  shows "\<not> startsWith (yearPrefix y' @ ds) (yearPrefix y)"
proof
  assume "startsWith (yearPrefix y' @ ds) (yearPrefix y)"
  then have "yearPrefix y' @ ds = yearPrefix y @ drop (length (yearPrefix y)) (yearPrefix y' @ ds)"
    unfolding startsWith_def by (metis append_take_drop_id)
  then obtain r where "dec y' @ CHR ''-'' # ds = dec y @ CHR ''-'' # r"
    by (auto simp: yearPrefix_def)
  then have "takeWhile (\<lambda>c. c \<noteq> CHR ''-'') (dec y' @ CHR ''-'' # ds) =
      takeWhile (\<lambda>c. c \<noteq> CHR ''-'') (dec y @ CHR ''-'' # r)"
    by simp
  moreover have "takeWhile (\<lambda>c. c \<noteq> CHR ''-'') (dec n) = dec n" for n
    using dec_no_dash [of n] by (simp add: takeWhile_eq_all_conv) metis
  ultimately have "dec y' = dec y"
    by (simp add: takeWhile_tail)
  with assms show False
    by (auto dest: dec_inject)
qed

lemma dec_length_3: "n < 1000 \<Longrightarrow> length (dec n) \<le> 3"
  by (subst dec.simps, simp, subst dec.simps, simp, subst dec.simps, simp)

lemma padStart3_length: "length (padStart3 s) = max 3 (length s)"
  by (simp add: padStart3_def)

lemma createAll_numbers:
  "generateExpenseNumber y xs = yearPrefix y @ padStart3 (dec m) \<Longrightarrow>
   sorted_wrt (<) clocks \<Longrightarrow> \<forall>e\<in>set xs. \<forall>c\<in>set clocks. expense_createdAt e < c \<Longrightarrow>
   map expenseNumber (createAll y clocks xs) =
     map expenseNumber xs @ map (\<lambda>k. yearPrefix y @ padStart3 (dec k)) [m..<m + length clocks]"
proof (induction clocks arbitrary: xs m)
  case Nil
  show ?case by simp
next
  case (Cons c cs)
  have later: "\<forall>e\<in>set xs. expense_createdAt e < c"
    using Cons.prems(3) by simp
  have g': "generateExpenseNumber y (createExpense y c xs) = yearPrefix y @ padStart3 (dec (Suc m))"
    using generate_after_create [OF later Cons.prems(1)] by simp
  have s: "sorted_wrt (<) cs"
    using Cons.prems(2) by simp
  have l': "\<forall>e\<in>set (createExpense y c xs). \<forall>c'\<in>set cs. expense_createdAt e < c'"
    using Cons.prems(2,3) by (auto simp: createExpense_def)
  have "[m..<m + length (c # cs)] = m # [Suc m..<Suc m + length cs]"
    by (subst upt_rec) simp
  with Cons.IH [OF g' s l'] show ?case
    by (simp add: createExpense_def Cons.prems(1))
qed

lemma yearPrefix_literal: "yearPrefix y @ s = ''EXP-'' @ dec y @ ''-'' @ s"
  by (simp add: yearPrefix_def)

text \<open>
  C8. With no expense numbered for the year Y in the store, the generated number is
  EXP-Y-001. Otherwise, with the latest year-Y expense numbered EXP-Y-ds for a non-empty
  digit string ds of value n, the generated number is EXP-Y- followed by n + 1, padded
  with zeros on the left to three digits (n + 1 below \<open>2 ^ 53\<close>, where JavaScript
  numbers are exact). The expense the lookup returns is a year-Y expense of the store
  created no earlier than any other. The padded numeral has at least three digits,
  exactly three below 1000, and denotes the same number, so the suffix of the generated
  number is one above the suffix it was read from. Expenses created one after the other
  in a year that has none yet, each later than all stored ones, are numbered 001, 002,
  and so on; and expenses of other years do not count: a store that holds only those
  gives EXP-Y-001 again.
\<close>

theorem generateExpenseNumber_sequence:
  "((\<forall>e\<in>set xs. \<not> startsWith (expenseNumber e) (yearPrefix y)) \<longrightarrow>
      generateExpenseNumber y xs = ''EXP-'' @ dec y @ ''-001'')
   \<and> (\<forall>e ds. findFirst_latest (\<lambda>e. startsWith (expenseNumber e) (yearPrefix y)) xs = Some e \<and>
         expenseNumber e = ''EXP-'' @ dec y @ ''-'' @ ds \<and> ds \<noteq> [] \<and> (\<forall>c\<in>set ds. is_digit c) \<and>
         safe_integer (digits_val ds + 1) \<longrightarrow>
           generateExpenseNumber y xs = ''EXP-'' @ dec y @ ''-'' @ padStart3 (dec (digits_val ds + 1))
         \<and> digits_val ds < digits_val (padStart3 (dec (digits_val ds + 1))))
   \<and> (\<forall>e. findFirst_latest (\<lambda>e. startsWith (expenseNumber e) (yearPrefix y)) xs = Some e \<longrightarrow>
         e \<in> set xs \<and> startsWith (expenseNumber e) (yearPrefix y) \<and>
         (\<forall>e'\<in>set xs. startsWith (expenseNumber e') (yearPrefix y) \<longrightarrow>
            expense_createdAt e' \<le> expense_createdAt e))
   \<and> (\<forall>n. 3 \<le> length (padStart3 (dec n)) \<and> (n < 1000 \<longrightarrow> length (padStart3 (dec n)) = 3) \<and>
         digits_val (padStart3 (dec n)) = n)
   \<and> ((\<forall>e\<in>set xs. \<not> startsWith (expenseNumber e) (yearPrefix y)) \<and> sorted_wrt (<) clocks \<and>
       (\<forall>e\<in>set xs. \<forall>c\<in>set clocks. expense_createdAt e < c) \<and> safe_integer (length clocks + 1) \<longrightarrow>
         map expenseNumber (createAll y clocks xs) =
           map expenseNumber xs @ map (\<lambda>k. ''EXP-'' @ dec y @ ''-'' @ padStart3 (dec k)) [1..<1 + length clocks])
   \<and> ((\<forall>e\<in>set xs. \<exists>y' ds. y' \<noteq> y \<and> expenseNumber e = yearPrefix y' @ ds) \<longrightarrow>
         generateExpenseNumber y xs = ''EXP-'' @ dec y @ ''-001'')"
proof -
  let ?P = "\<lambda>e. startsWith (expenseNumber e) (yearPrefix y)"
  have first: "generateExpenseNumber y xs = ''EXP-'' @ dec y @ ''-001''" if "\<forall>e\<in>set xs. \<not> ?P e"
  proof -
    from that have "findFirst_latest ?P xs = None"
      by (simp only: findFirst_latest_None_iff)
    from generate_first [OF this] show ?thesis
      by (simp add: yearPrefix_def)
  qed
  have nxt: "generateExpenseNumber y xs = ''EXP-'' @ dec y @ ''-'' @ padStart3 (dec (digits_val ds + 1))
      \<and> digits_val ds < digits_val (padStart3 (dec (digits_val ds + 1)))"
    if "findFirst_latest ?P xs = Some e" "expenseNumber e = ''EXP-'' @ dec y @ ''-'' @ ds"
      "ds \<noteq> []" "\<forall>c\<in>set ds. is_digit c" for e ds
  proof -
    from that(2) have "expenseNumber e = yearPrefix y @ ds"
      by (simp add: yearPrefix_def)
    from generate_next [OF that(1) this that(3,4)] show ?thesis
      by (simp add: yearPrefix_def digits_val_padStart3 digits_val_dec)
  qed
  have latest: "e \<in> set xs \<and> ?P e \<and> (\<forall>e'\<in>set xs. ?P e' \<longrightarrow> expense_createdAt e' \<le> expense_createdAt e)"
    if "findFirst_latest ?P xs = Some e" for e
    using findFirst_latest_SomeD [OF that] .
  have pad: "3 \<le> length (padStart3 (dec n)) \<and> (n < 1000 \<longrightarrow> length (padStart3 (dec n)) = 3) \<and>
      digits_val (padStart3 (dec n)) = n" for n
    using dec_length_3 [of n] by (auto simp: padStart3_length digits_val_padStart3 digits_val_dec)
  have run: "map expenseNumber (createAll y clocks xs) =
      map expenseNumber xs @ map (\<lambda>k. ''EXP-'' @ dec y @ ''-'' @ padStart3 (dec k)) [1..<1 + length clocks]"
    if "\<forall>e\<in>set xs. \<not> ?P e" "sorted_wrt (<) clocks" "\<forall>e\<in>set xs. \<forall>c\<in>set clocks. expense_createdAt e < c"
  proof -
    have "padStart3 (dec 1) = ''001''"
      by (simp add: padStart3_def dec.simps digit_of_def eval_nat_numeral)
    with first [OF that(1)] have g: "generateExpenseNumber y xs = yearPrefix y @ padStart3 (dec 1)"
      by (simp add: yearPrefix_def)
    from createAll_numbers [OF g that(2,3)] show ?thesis
      by (simp add: yearPrefix_def)
  qed
  have reset: "generateExpenseNumber y xs = ''EXP-'' @ dec y @ ''-001''"
    if "\<forall>e\<in>set xs. \<exists>y' ds. y' \<noteq> y \<and> expenseNumber e = yearPrefix y' @ ds"
  proof (rule first)
    show "\<forall>e\<in>set xs. \<not> ?P e"
      using that other_year_prefix [of _ y] by metis
  qed
  from first nxt latest pad run reset show ?thesis
    by blast
qed

lemma dec_2025: "dec 2025 = ''2025''"
  by (simp add: dec.simps digit_of_def)

lemma yearPrefix_2025: "yearPrefix 2025 = ''EXP-2025-''"
  by (simp add: yearPrefix_def dec_2025)

lemma small_decs: "dec 1 = ''1''" "dec 2 = ''2''" "dec 3 = ''3''" "dec 42 = ''42''"
  by (simp_all add: dec.simps digit_of_def)

lemma small_pads:
  "padStart3 (dec 1) = ''001''" "padStart3 (dec 2) = ''002''" "padStart3 (dec 3) = ''003''"
  "padStart3 (dec 42) = ''042''"
  unfolding small_decs by (simp_all add: padStart3_def numeral_2_eq_2)

lemma sample_latest:
  "findFirst_latest (\<lambda>e. startsWith (expenseNumber e) (yearPrefix 2025)) sample_expenses =
     Some \<lparr>expenseNumber = ''EXP-2025-041'', expense_createdAt = 5\<rparr>"
  by (simp add: yearPrefix_2025 findFirst_latest_def sample_expenses_def startsWith_def)

lemma sample_suffix: "digits_val ''041'' = 41"
  by (simp add: digits_val_def digit_val_def)

theorem generateExpenseNumber_sequence_witness:
  "generateExpenseNumber 2025 [] = ''EXP-2025-001''
   \<and> generateExpenseNumber 2025 sample_expenses = ''EXP-2025-042''
   \<and> map expenseNumber (createAll 2025 [10, 20, 30] [\<lparr>expenseNumber = ''EXP-2024-999'', expense_createdAt = 9\<rparr>]) =
       [''EXP-2024-999'', ''EXP-2025-001'', ''EXP-2025-002'', ''EXP-2025-003'']"
proof -
  let ?old = "\<lparr>expenseNumber = ''EXP-2024-999'', expense_createdAt = 9\<rparr>"
  let ?latest = "\<lparr>expenseNumber = ''EXP-2025-041'', expense_createdAt = 5\<rparr>"
  have a: "generateExpenseNumber 2025 [] = ''EXP-2025-001''"
    using generateExpenseNumber_sequence [of "[]" 2025 "[]"] by (simp add: dec_2025)
  have e: "expenseNumber ?latest = ''EXP-'' @ dec 2025 @ ''-'' @ ''041''"
    by (simp add: dec_2025)
  have ne: "''041'' \<noteq> []"
    by simp
  have d: "\<forall>c\<in>set ''041''. is_digit c"
    by (simp add: is_digit_def)
  have s: "safe_integer (digits_val ''041'' + 1)"
    by (simp add: sample_suffix safe_integer_def)
  from generateExpenseNumber_sequence [of sample_expenses 2025 "[]"]
  have "\<forall>e ds. findFirst_latest (\<lambda>e. startsWith (expenseNumber e) (yearPrefix 2025)) sample_expenses = Some e \<and>
         expenseNumber e = ''EXP-'' @ dec 2025 @ ''-'' @ ds \<and> ds \<noteq> [] \<and> (\<forall>c\<in>set ds. is_digit c) \<and>
         safe_integer (digits_val ds + 1) \<longrightarrow>
           generateExpenseNumber 2025 sample_expenses = ''EXP-'' @ dec 2025 @ ''-'' @ padStart3 (dec (digits_val ds + 1))
         \<and> digits_val ds < digits_val (padStart3 (dec (digits_val ds + 1)))"
    by blast
  with sample_latest e ne d s
  have g: "generateExpenseNumber 2025 sample_expenses =
      ''EXP-'' @ dec 2025 @ ''-'' @ padStart3 (dec (digits_val ''041'' + 1))"
    by blast
  have b: "generateExpenseNumber 2025 sample_expenses = ''EXP-2025-042''"
    unfolding g sample_suffix by (simp add: dec_2025 small_pads)
  have none: "\<forall>e\<in>set [?old]. \<not> startsWith (expenseNumber e) (yearPrefix 2025)"
    by (simp add: yearPrefix_2025 startsWith_def)
  have srt: "sorted_wrt (<) [10, 20, 30 :: int]"
    by simp
  have later: "\<forall>e\<in>set [?old]. \<forall>c\<in>set [10, 20, 30 :: int]. expense_createdAt e < c"
    by simp
  have safe: "safe_integer (length [10, 20, 30 :: int] + 1)"
    by (simp add: safe_integer_def)
  from generateExpenseNumber_sequence [of "[?old]" 2025 "[10, 20, 30]"]
  have "(\<forall>e\<in>set [?old]. \<not> startsWith (expenseNumber e) (yearPrefix 2025)) \<and> sorted_wrt (<) [10, 20, 30 :: int] \<and>
       (\<forall>e\<in>set [?old]. \<forall>c\<in>set [10, 20, 30 :: int]. expense_createdAt e < c) \<and>
       safe_integer (length [10, 20, 30 :: int] + 1) \<longrightarrow>
         map expenseNumber (createAll 2025 [10, 20, 30] [?old]) =
           map expenseNumber [?old] @
           map (\<lambda>k. ''EXP-'' @ dec 2025 @ ''-'' @ padStart3 (dec k)) [1..<1 + length [10, 20, 30 :: int]]"
    by blast
  with none srt later safe
  have m: "map expenseNumber (createAll 2025 [10, 20, 30] [?old]) =
           map expenseNumber [?old] @
           map (\<lambda>k. ''EXP-'' @ dec 2025 @ ''-'' @ padStart3 (dec k)) [1..<1 + length [10, 20, 30 :: int]]"
    by blast
  have u: "[1..<1 + length [10, 20, 30 :: int]] = [1, 2, 3]"
    by (simp add: upt_rec)
  have one: "padStart3 (dec (Suc 0)) = ''001''"
    using small_pads(1) by simp
  have c: "map expenseNumber (createAll 2025 [10, 20, 30] [?old]) =
      [''EXP-2024-999'', ''EXP-2025-001'', ''EXP-2025-002'', ''EXP-2025-003'']"
    unfolding m u by (simp add: small_pads one dec_2025)
  from a b c show ?thesis by blast
qed

end
